theory Spec2Isabelle
  imports Complex_Main "HOL-Library.Log_Nat" "HOL-Library.Sublist" "HOL-Library.AList"
begin

section \<open>Text\<close>

text \<open>
  A Python \<open>str\<close> is modelled as a \<open>string\<close> whose characters are read as the code points
  U+0000 .. U+00FF.  The character classes below are the ones Python uses on that range.
\<close>

definition code :: "char \<Rightarrow> nat" where
  "code c = of_char c"

text \<open>The characters U+0000 .. U+007F are the ones whose highest bit is clear.\<close>

definition is_ascii :: "char \<Rightarrow> bool" where
  "is_ascii c = (\<not> digit7 c)"

text \<open>
  \<open>str.isspace\<close>: the characters removed by \<open>str.strip()\<close> and matched by \<open>\s\<close>
  (U+0009 .. U+000D, U+001C .. U+0020, U+0085, U+00A0).
\<close>

definition is_space :: "char \<Rightarrow> bool" where
  "is_space c = (c \<in> set [CHR 0x20, CHR 0x09, CHR 0x0A, CHR 0x0B, CHR 0x0C, CHR 0x0D,
                            CHR 0x1C, CHR 0x1D, CHR 0x1E, CHR 0x1F, CHR 0x85, CHR 0xA0])"

definition is_digit :: "char \<Rightarrow> bool" where
  "is_digit c = (c \<in> set ''0123456789'')"

definition is_ascii_upper :: "char \<Rightarrow> bool" where
  "is_ascii_upper c = (c \<in> set ''ABCDEFGHIJKLMNOPQRSTUVWXYZ'')"

definition is_ascii_lower :: "char \<Rightarrow> bool" where
  "is_ascii_lower c = (c \<in> set ''abcdefghijklmnopqrstuvwxyz'')"

definition is_ascii_alnum :: "char \<Rightarrow> bool" where
  "is_ascii_alnum c = (is_digit c \<or> is_ascii_upper c \<or> is_ascii_lower c)"

text \<open>
  The word characters of \<open>\w\<close> and \<open>\b\<close>: alphanumeric in Unicode, or the underscore.
  Above U+007F these are U+00AA, U+00B2, U+00B3, U+00B5, U+00B9, U+00BA, U+00BC .. U+00BE
  and the letters U+00C0 .. U+00FF without U+00D7 and U+00F7.
\<close>

definition is_word :: "char \<Rightarrow> bool" where
  "is_word c =
     (if is_ascii c then is_ascii_alnum c \<or> c = CHR ''_''
      else let n = code c in
        n = 170 \<or> n = 178 \<or> n = 179 \<or> n = 181 \<or> n = 185 \<or> n = 186 \<or> (188 \<le> n \<and> n \<le> 190)
        \<or> (192 \<le> n \<and> n \<noteq> 215 \<and> n \<noteq> 247))"

text \<open>
  \<open>str.lower\<close>, character by character: A .. Z, and U+00C0 .. U+00DE without U+00D7,
  move up by 32.
\<close>

definition lower_char :: "char \<Rightarrow> char" where
  "lower_char c =
     (if is_ascii c then
        (case map_of (zip ''ABCDEFGHIJKLMNOPQRSTUVWXYZ'' ''abcdefghijklmnopqrstuvwxyz'') c of
           Some d \<Rightarrow> d | None \<Rightarrow> c)
      else let n = code c in
        if 192 \<le> n \<and> n \<le> 222 \<and> n \<noteq> 215 then char_of (n + 32) else c)"

definition lower :: "string \<Rightarrow> string" where
  "lower s = map lower_char s"

text \<open>
  \<open>str.upper\<close>.  The sharp s becomes two letters.  The upper-case forms of U+00B5 and U+00FF
  lie outside the modelled range; they are left in place (neither is an ASCII letter, so
  no substring test on ASCII letters can tell the difference).
\<close>

definition upper_char :: "char \<Rightarrow> string" where
  "upper_char c =
     (if is_ascii c then
        (case map_of (zip ''abcdefghijklmnopqrstuvwxyz'' ''ABCDEFGHIJKLMNOPQRSTUVWXYZ'') c of
           Some d \<Rightarrow> [d] | None \<Rightarrow> [c])
      else let n = code c in
        if n = 223 then ''SS''
        else if 224 \<le> n \<and> n \<le> 254 \<and> n \<noteq> 247 then [char_of (n - 32)]
        else [c])"

definition upper :: "string \<Rightarrow> string" where
  "upper s = concat (map upper_char s)"

text \<open>\<open>s.strip()\<close> and \<open>s.strip(chars)\<close>.\<close>

definition strip_by :: "(char \<Rightarrow> bool) \<Rightarrow> string \<Rightarrow> string" where
  "strip_by p s = rev (dropWhile p (rev (dropWhile p s)))"

definition strip :: "string \<Rightarrow> string" where
  "strip s = strip_by is_space s"

text \<open>\<open>sub in s\<close>.\<close>

fun contains :: "string \<Rightarrow> string \<Rightarrow> bool" where
  "contains sub [] = (sub = [])"
| "contains sub (c # cs) = (prefix sub (c # cs) \<or> contains sub cs)"

text \<open>\<open>s.split(sep)[0]\<close> for a non-empty separator: the text before its first occurrence.\<close>

fun before_first :: "string \<Rightarrow> string \<Rightarrow> string" where
  "before_first sep [] = []"
| "before_first sep (c # cs) = (if prefix sep (c # cs) then [] else c # before_first sep cs)"

text \<open>
  \<open>s.replace(old, new)\<close> for a non-empty \<open>old\<close>: occurrences are replaced from the left
  and do not overlap.  The counter says how many characters of a replaced occurrence are
  still to be passed over.
\<close>

fun replace_go :: "string \<Rightarrow> string \<Rightarrow> nat \<Rightarrow> string \<Rightarrow> string" where
  "replace_go old new k [] = []"
| "replace_go old new (Suc k) (c # cs) = replace_go old new k cs"
| "replace_go old new 0 (c # cs) =
     (if old \<noteq> [] \<and> prefix old (c # cs) then new @ replace_go old new (length old - 1) cs
      else c # replace_go old new 0 cs)"

definition replace :: "string \<Rightarrow> string \<Rightarrow> string \<Rightarrow> string" where
  "replace old new s = replace_go old new 0 s"

section \<open>Regular expressions\<close>

text \<open>
  The fragment of Python's \<open>re\<close> syntax that \<open>normalize_tournament_name\<close> uses, with the
  backtracking semantics of the \<open>re\<close> module: a match is tried at each position from the
  left, alternatives are tried in the order written, and repetition is greedy.
\<close>

datatype cclass =
    CDigit   \<comment> \<open>\<open>\d\<close>\<close>
  | CSpace   \<comment> \<open>\<open>\s\<close>\<close>
  | CAlnum   \<comment> \<open>\<open>[A-Za-z0-9]\<close>\<close>
  | CAlpha   \<comment> \<open>\<open>[A-Z]\<close> under \<open>re.IGNORECASE\<close>\<close>

datatype rx =
    Eps                     \<comment> \<open>the empty pattern\<close>
  | Lit char
  | Cls cclass
  | Seq rx rx
  | Alt rx rx
  | Opt rx                  \<comment> \<open>\<open>r?\<close>\<close>
  | Rep cclass nat nat      \<comment> \<open>\<open>c{lo,hi}\<close>\<close>
  | Plus cclass             \<comment> \<open>\<open>c+\<close>\<close>
  | Star cclass             \<comment> \<open>\<open>c*\<close>\<close>
  | WordB                   \<comment> \<open>\<open>\b\<close>\<close>
  | NotAtStart              \<comment> \<open>\<open>(?<!^)\<close>\<close>
  | NotBehind nat rx        \<comment> \<open>\<open>(?<!r)\<close> for an \<open>r\<close> of the given fixed width\<close>

fun in_class :: "cclass \<Rightarrow> char \<Rightarrow> bool" where
  "in_class CDigit c = is_digit c"
| "in_class CSpace c = is_space c"
| "in_class CAlnum c = is_ascii_alnum c"
| "in_class CAlpha c = (is_ascii_upper c \<or> is_ascii_lower c)"

text \<open>A literal of the pattern against a character of the text; \<open>ic\<close> is \<open>re.IGNORECASE\<close>.\<close>

definition lit_eq :: "bool \<Rightarrow> char \<Rightarrow> char \<Rightarrow> bool" where
  "lit_eq ic p c = (if p = c then True else ic \<and> lower_char p = lower_char c)"

text \<open>
  A position in the text is the pair of the text before it, reversed, and the text after it.
  \<open>greedy k lo hi pre suf\<close> lists the positions reached by taking between \<open>lo\<close> and \<open>hi\<close>
  characters of class \<open>k\<close>, the longest first.
\<close>

fun greedy :: "cclass \<Rightarrow> nat \<Rightarrow> nat \<Rightarrow> string \<Rightarrow> string \<Rightarrow> (string \<times> string) list" where
  "greedy k lo hi pre [] = (if lo = 0 then [(pre, [])] else [])"
| "greedy k lo hi pre (c # cs) =
     (if hi \<noteq> 0 \<and> in_class k c then greedy k (lo - 1) (hi - 1) (c # pre) cs else [])
     @ (if lo = 0 then [(pre, c # cs)] else [])"

definition at_boundary :: "string \<Rightarrow> string \<Rightarrow> bool" where
  "at_boundary pre suf =
     ((case pre of [] \<Rightarrow> False | c # _ \<Rightarrow> is_word c) \<noteq> (case suf of [] \<Rightarrow> False | c # _ \<Rightarrow> is_word c))"

text \<open>
  \<open>rmatch ic r pre suf\<close>: the positions at which a match of \<open>r\<close> that starts at the position
  \<open>(pre, suf)\<close> can end, in the order in which the backtracking matcher finds them.
\<close>

fun rmatch :: "bool \<Rightarrow> rx \<Rightarrow> string \<Rightarrow> string \<Rightarrow> (string \<times> string) list" where
  "rmatch ic Eps pre suf = [(pre, suf)]"
| "rmatch ic (Lit p) pre suf =
     (case suf of [] \<Rightarrow> [] | c # cs \<Rightarrow> if lit_eq ic p c then [(c # pre, cs)] else [])"
| "rmatch ic (Cls k) pre suf =
     (case suf of [] \<Rightarrow> [] | c # cs \<Rightarrow> if in_class k c then [(c # pre, cs)] else [])"
| "rmatch ic (Seq a b) pre suf =
     concat (map (\<lambda>ps. rmatch ic b (fst ps) (snd ps)) (rmatch ic a pre suf))"
| "rmatch ic (Alt a b) pre suf = rmatch ic a pre suf @ rmatch ic b pre suf"
| "rmatch ic (Opt a) pre suf = rmatch ic a pre suf @ [(pre, suf)]"
| "rmatch ic (Rep k lo hi) pre suf = greedy k lo hi pre suf"
| "rmatch ic (Plus k) pre suf = greedy k 1 (length suf) pre suf"
| "rmatch ic (Star k) pre suf = greedy k 0 (length suf) pre suf"
| "rmatch ic WordB pre suf = (if at_boundary pre suf then [(pre, suf)] else [])"
| "rmatch ic NotAtStart pre suf = (if pre = [] then [] else [(pre, suf)])"
| "rmatch ic (NotBehind n a) pre suf =
     (if n \<le> length pre \<and> (pre, suf) \<in> set (rmatch ic a (drop n pre) (rev (take n pre) @ suf))
      then [] else [(pre, suf)])"

text \<open>
  \<open>re.sub(r, '', s)\<close>: the text is scanned from the left; where \<open>r\<close> matches, the first
  match found is removed and the scan goes on behind it.  The matcher always sees the
  original text.  None of the patterns below matches the empty string; a position where
  only the empty string matches keeps its character.
\<close>

fun rsub_go :: "bool \<Rightarrow> rx \<Rightarrow> string \<Rightarrow> nat \<Rightarrow> string \<Rightarrow> string" where
  "rsub_go ic r pre k [] = []"
| "rsub_go ic r pre (Suc k) (c # cs) = rsub_go ic r (c # pre) k cs"
| "rsub_go ic r pre 0 (c # cs) =
     (case rmatch ic r pre (c # cs) of
        [] \<Rightarrow> c # rsub_go ic r (c # pre) 0 cs
      | ps # _ \<Rightarrow>
          (let n = length (c # cs) - length (snd ps)
           in if n = 0 then c # rsub_go ic r (c # pre) 0 cs
              else rsub_go ic r (c # pre) (n - 1) cs))"

definition rsub :: "bool \<Rightarrow> rx \<Rightarrow> string \<Rightarrow> string" where
  "rsub ic r s = rsub_go ic r [] 0 s"

text \<open>\<open>re.sub(r'\s+', ' ', s)\<close>: every run of white space becomes one space.\<close>

fun collapse_go :: "bool \<Rightarrow> string \<Rightarrow> string" where
  "collapse_go in_run [] = []"
| "collapse_go in_run (c # cs) =
     (if is_space c then (if in_run then collapse_go True cs else CHR '' '' # collapse_go True cs)
      else c # collapse_go False cs)"

definition collapse_ws :: "string \<Rightarrow> string" where
  "collapse_ws s = collapse_go False s"

section \<open>Tournament names\<close>

text \<open>Building patterns: a literal word, a sequence, a choice.\<close>

definition lits :: "string \<Rightarrow> rx" where
  "lits s = foldr (\<lambda>c r. Seq (Lit c) r) s Eps"

definition seqs :: "rx list \<Rightarrow> rx" where
  "seqs rs = foldr Seq rs Eps"

fun alts :: "rx list \<Rightarrow> rx" where
  "alts [] = Eps"
| "alts [r] = r"
| "alts (r # rs) = Alt r (alts rs)"

text \<open>\<open>\b(19|20)\d{2}\b\<close>\<close>

definition year_pattern :: rx where
  "year_pattern = seqs [WordB, alts [lits ''19'', lits ''20''], Rep CDigit 2 2, WordB]"

text \<open>\<open>\bWORD\s+\d+\b\<close>, the shape of seven of the patterns.\<close>

definition word_number :: "string \<Rightarrow> rx" where
  "word_number w = seqs [WordB, lits w, Plus CSpace, Plus CDigit, WordB]"

text \<open>\<open>\b(w1|w2|...)\b\<close>\<close>

definition one_of_words :: "rx list \<Rightarrow> rx" where
  "one_of_words ws = seqs [WordB, alts ws, WordB]"

text \<open>The list \<open>patterns\<close> of the source, in its order.\<close>

definition patterns :: "rx list" where
  "patterns =
    [ word_number ''Season'',
      word_number ''Series'',
      seqs [WordB, lits ''Vol'', Opt (Lit CHR ''.''), Star CSpace, Plus CDigit, WordB],
      word_number ''Part'',
      word_number ''Stage'',
      word_number ''Phase'',
      word_number ''Split'',
      seqs [WordB, lits ''Group'', Plus CSpace, Plus CAlnum, WordB],
      seqs [Lit CHR ''#'', Plus CDigit],
      one_of_words [lits ''OS''],
      seqs [WordB, alts [lits ''Asia'', lits ''Americas'', lits ''Europe''], Plus CSpace,
            lits ''RMR'', Opt (Seq (Plus CSpace) (Cls CAlpha)), WordB],
      one_of_words [lits ''RMR''],
      seqs [WordB, lits ''S'', Plus CDigit, WordB],
      seqs [NotAtStart, WordB,
            alts [lits ''Europe'', lits ''EU'', lits ''NA'', lits ''SA'', lits ''Asia'',
                  lits ''Americas'', lits ''Oceania'', lits ''CIS'', lits ''European'',
                  lits ''South American'', lits ''North American'', lits ''Pacific'',
                  lits ''APAC''],
            WordB],
      one_of_words [lits ''LCQ''],
      one_of_words [lits ''Play-In'', lits ''Global Finals'', lits ''Contenders'', lits ''CQ'',
                    Seq (lits ''Final'') (Opt (Lit CHR ''s'')),
                    Seq (lits ''Group'') (Opt (Lit CHR ''s'')),
                    Seq (lits ''Playoff'') (Opt (Lit CHR ''s''))],
      seqs [WordB, Plus CDigit,
            Opt (alts [lits ''st'', lits ''nd'', lits ''rd'', lits ''th'']),
            Plus CSpace, lits ''Division'', WordB],
      seqs [WordB, lits ''Division'', Plus CSpace, Plus CDigit, WordB],
      one_of_words [lits ''Series''],
      seqs [NotAtStart, NotBehind 4 (seqs [WordB, lits ''IEM'', Cls CSpace]), WordB,
            alts [lits ''Atlanta'', lits ''Katowice'', lits ''Bangkok'', lits ''Raleigh'',
                  lits ''Lisbon''],
            WordB],
      one_of_words [lits ''Spring'', lits ''Summer'', lits ''Fall'', lits ''Winter''],
      one_of_words [lits ''I'', lits ''II'', lits ''III'', lits ''IV'', lits ''V'', lits ''VI'',
                    lits ''VII'', lits ''VIII'', lits ''IX'', lits ''X''] ]"

text \<open>\<open>\b\d{1,3}\b\<close>\<close>

definition number_pattern :: rx where
  "number_pattern = seqs [WordB, Rep CDigit 1 3, WordB]"

definition normalize_tournament_name :: "string \<Rightarrow> string" where
  "normalize_tournament_name name0 =
     (if name0 = [] then []
      else
        let name1 = replace ''StarLadder SS'' ''StarLadder StarSeries'' name0;
            name2 = (if contains ''//'' name1 then before_first ''//'' name1 else name1);
            name3 = (if contains '': '' name2 then before_first '': '' name2 else name2);
            name4 = rsub False year_pattern name3;
            name5 = foldl (\<lambda>name p. rsub True p name) name4 patterns;
            name6 = rsub False number_pattern name5
        in strip_by (\<lambda>c. c = CHR '' '' \<or> c = CHR ''-'') (collapse_ws name6))"

section \<open>Floating-point numbers\<close>

text \<open>
  A Python \<open>float\<close> is an IEEE 754 binary64 number.  A finite non-zero value is given by
  the rational it denotes; the two zeros, the infinities and the not-a-number value are
  kept apart.  \<open>Fin 0\<close> is the positive zero.
\<close>

datatype pyfloat = Fin rat | NegZero | PosInf | NegInf | NaN

text \<open>Rounding to the nearest integer, a tie going to the even one.\<close>

definition round_half_even :: "rat \<Rightarrow> int" where
  "round_half_even q =
     (let f = \<lfloor>q\<rfloor>; d = q - of_int f
      in if d < 1 / 2 then f else if 1 / 2 < d then f + 1 else if even f then f else f + 1)"

text \<open>For \<open>q > 0\<close>, the exponent \<open>e\<close> with \<open>2^e \<le> q < 2^(e+1)\<close>.\<close>

definition ilog2 :: "rat \<Rightarrow> int" where
  "ilog2 q = (if 1 \<le> q then bitlen \<lfloor>q\<rfloor> - 1 else - bitlen (\<lceil>1 / q\<rceil> - 1))"

text \<open>
  The exponent of the unit in the last place at magnitude \<open>q\<close>: 53 significant bits, and
  no exponent below that of the subnormal numbers.
\<close>

definition ulp_exp :: "rat \<Rightarrow> int" where
  "ulp_exp q = max (ilog2 \<bar>q\<bar> - 52) (- 1074)"

text \<open>The multiple of the unit in the last place nearest to \<open>q > 0\<close>, ties to even.\<close>

definition rnd_mag :: "rat \<Rightarrow> rat" where
  "rnd_mag q = of_int (round_half_even (q / 2 powi ulp_exp q)) * 2 powi ulp_exp q"

text \<open>The least magnitude that rounding does not keep finite.\<close>

definition overflow_threshold :: rat where
  "overflow_threshold = 2 ^ 1024"

lemma overflow_threshold_code [code]:
  "overflow_threshold = 179769313486231590772930519078902473361797697894230657273430081157732675805500963132708477322407536021120113879871393357658789768814416622492847430639474124377767893424865485276302219601246094119453082952085005768838150682342462881473913110540827237163350510684586298239947245938479716304835356329624224137216"
  by (simp add: overflow_threshold_def)

text \<open>
  The binary64 number nearest to the magnitude \<open>q \<ge> 0\<close> with the sign \<open>neg\<close>: what is too
  large becomes an infinity, what is too small a zero of that sign.
\<close>

definition rnd_signed :: "bool \<Rightarrow> rat \<Rightarrow> pyfloat" where
  "rnd_signed neg q =
     (let r = (if q = 0 then 0 else rnd_mag q)
      in if overflow_threshold \<le> r then (if neg then NegInf else PosInf)
         else if r = 0 then (if neg then NegZero else Fin 0)
         else Fin (if neg then - r else r))"

definition rnd :: "rat \<Rightarrow> pyfloat" where
  "rnd q = rnd_signed (q < 0) \<bar>q\<bar>"

text \<open>The rationals that are binary64 numbers, and the well-formed values of the model.\<close>

definition is_double :: "rat \<Rightarrow> bool" where
  "is_double q =
     (q = 0 \<or> (\<bar>q\<bar> < overflow_threshold \<and> (let m = \<bar>q\<bar> / 2 powi ulp_exp q in of_int \<lfloor>m\<rfloor> = m)))"

fun valid :: "pyfloat \<Rightarrow> bool" where
  "valid (Fin q) = is_double q"
| "valid x = True"

fun is_nan :: "pyfloat \<Rightarrow> bool" where
  "is_nan NaN = True"
| "is_nan x = False"

fun is_inf :: "pyfloat \<Rightarrow> bool" where
  "is_inf PosInf = True"
| "is_inf NegInf = True"
| "is_inf x = False"

fun is_finite :: "pyfloat \<Rightarrow> bool" where
  "is_finite (Fin q) = True"
| "is_finite NegZero = True"
| "is_finite x = False"

text \<open>The sign bit, and the value of a finite number.\<close>

fun is_neg :: "pyfloat \<Rightarrow> bool" where
  "is_neg (Fin q) = (q < 0)"
| "is_neg NegZero = True"
| "is_neg NegInf = True"
| "is_neg x = False"

fun fval :: "pyfloat \<Rightarrow> rat" where
  "fval (Fin q) = q"
| "fval x = 0"

text \<open>\<open>x < y\<close>, \<open>x > y\<close> and \<open>x == y\<close>: false whenever an operand is not a number.\<close>

fun flt :: "pyfloat \<Rightarrow> pyfloat \<Rightarrow> bool" where
  "flt NaN y = False"
| "flt x NaN = False"
| "flt PosInf y = False"
| "flt x NegInf = False"
| "flt NegInf y = True"
| "flt x PosInf = True"
| "flt x y = (fval x < fval y)"

definition fgt :: "pyfloat \<Rightarrow> pyfloat \<Rightarrow> bool" where
  "fgt x y = flt y x"

fun feq :: "pyfloat \<Rightarrow> pyfloat \<Rightarrow> bool" where
  "feq NaN y = False"
| "feq x NaN = False"
| "feq PosInf y = (y = PosInf)"
| "feq NegInf y = (y = NegInf)"
| "feq x PosInf = False"
| "feq x NegInf = False"
| "feq x y = (fval x = fval y)"

text \<open>\<open>x * y\<close>\<close>

definition fmul :: "pyfloat \<Rightarrow> pyfloat \<Rightarrow> pyfloat" where
  "fmul x y =
     (if is_nan x \<or> is_nan y then NaN
      else if is_inf x \<or> is_inf y then
        (if (is_finite x \<and> fval x = 0) \<or> (is_finite y \<and> fval y = 0) then NaN
         else if is_neg x \<noteq> is_neg y then NegInf else PosInf)
      else rnd_signed (is_neg x \<noteq> is_neg y) (\<bar>fval x\<bar> * \<bar>fval y\<bar>))"

text \<open>\<open>x - y\<close>: an exact zero is positive unless it is \<open>-0.0 - 0.0\<close>.\<close>

definition fsub :: "pyfloat \<Rightarrow> pyfloat \<Rightarrow> pyfloat" where
  "fsub x y =
     (if is_nan x \<or> is_nan y then NaN
      else if is_inf x then (if is_inf y \<and> is_neg x = is_neg y then NaN else x)
      else if is_inf y then (if is_neg y then PosInf else NegInf)
      else if fval x = fval y then (if x = NegZero \<and> y \<noteq> NegZero then NegZero else Fin 0)
      else rnd (fval x - fval y))"

text \<open>\<open>a / b\<close> on integers \<open>a \<ge> 0\<close> and \<open>b > 0\<close>: the quotient, correctly rounded.\<close>

definition truediv :: "nat \<Rightarrow> nat \<Rightarrow> pyfloat" where
  "truediv a b = rnd (of_nat a / of_nat b)"

text \<open>
  \<open>round(x, n)\<close> for \<open>0 \<le> n\<close>: infinities and not-a-number are returned as they are; a
  finite \<open>x\<close> is rounded, by its exact value and ties to even, to \<open>n\<close> decimal places, and
  that decimal is converted back.  \<open>None\<close> is the \<open>OverflowError\<close> raised when the
  conversion overflows.
\<close>

definition py_round :: "pyfloat \<Rightarrow> nat \<Rightarrow> pyfloat option" where
  "py_round x n =
     (if \<not> is_finite x \<or> 323 < n then Some x
      else
        let r = rnd_signed (is_neg x) (of_int (round_half_even (\<bar>fval x\<bar> * 10 ^ n)) / 10 ^ n)
        in if is_inf r then None else Some r)"

subsection \<open>Reading a number\<close>

definition digit_val :: "char \<Rightarrow> int" where
  "digit_val c = int (code c) - 48"

definition digits_val :: "string \<Rightarrow> int" where
  "digits_val ds = foldl (\<lambda>a c. 10 * a + digit_val c) 0 ds"

text \<open>An underscore may stand only between two digits.\<close>

fun underscores_ok :: "bool \<Rightarrow> string \<Rightarrow> bool" where
  "underscores_ok prev_digit [] = True"
| "underscores_ok prev_digit (c # cs) =
     (if c = CHR ''_'' then
        prev_digit \<and> (case cs of [] \<Rightarrow> False | d # _ \<Rightarrow> is_digit d) \<and> underscores_ok False cs
      else underscores_ok (is_digit c) cs)"

text \<open>The exponent part: nothing, or \<open>e\<close>, an optional sign and digits up to the end.\<close>

definition parse_exponent :: "string \<Rightarrow> int option" where
  "parse_exponent s =
     (case s of
        [] \<Rightarrow> Some 0
      | c # t \<Rightarrow>
          if c = CHR ''e'' \<or> c = CHR ''E'' then
            (let neg = (case t of d # _ \<Rightarrow> d = CHR ''-'' | [] \<Rightarrow> False);
                 ds = (case t of d # u \<Rightarrow> if d = CHR ''-'' \<or> d = CHR ''+'' then u else t | [] \<Rightarrow> [])
             in if ds \<noteq> [] \<and> list_all is_digit ds
                then Some (if neg then - digits_val ds else digits_val ds)
                else None)
          else None)"

text \<open>
  An unsigned decimal number: digits, an optional point and digits, at least one digit in
  all, and the exponent part.  The result \<open>(m, e)\<close> stands for \<open>m * 10^e\<close>.
\<close>

definition parse_number :: "string \<Rightarrow> (int \<times> int) option" where
  "parse_number s =
     (let ip = takeWhile is_digit s;
          r1 = dropWhile is_digit s;
          fp = (case r1 of c # t \<Rightarrow> if c = CHR ''.'' then takeWhile is_digit t else [] | [] \<Rightarrow> []);
          r2 = (case r1 of c # t \<Rightarrow> if c = CHR ''.'' then dropWhile is_digit t else r1 | [] \<Rightarrow> [])
      in if ip = [] \<and> fp = [] then None
         else case parse_exponent r2 of
                None \<Rightarrow> None
              | Some e \<Rightarrow> Some (digits_val (ip @ fp), e - int (length fp)))"

text \<open>The white space that \<open>float\<close> removes at both ends of its argument.\<close>

definition is_float_space :: "char \<Rightarrow> bool" where
  "is_float_space c = (c \<in> set [CHR 0x20, CHR 0x09, CHR 0x0A, CHR 0x0B, CHR 0x0C, CHR 0x0D,
                                  CHR 0x85, CHR 0xA0])"

text \<open>
  \<open>float(s)\<close> on a string; \<open>None\<close> is \<open>ValueError\<close>.  Accepted are a decimal number, and
  \<open>inf\<close>, \<open>infinity\<close> and \<open>nan\<close> in any case, each with an optional sign.
\<close>

definition py_float :: "string \<Rightarrow> pyfloat option" where
  "py_float s0 =
     (let s = strip_by is_float_space s0
      in if \<not> underscores_ok False s then None
         else
           let t = filter (\<lambda>c. c \<noteq> CHR ''_'') s;
               neg = (case t of c # _ \<Rightarrow> c = CHR ''-'' | [] \<Rightarrow> False);
               body = (case t of c # u \<Rightarrow> if c = CHR ''-'' \<or> c = CHR ''+'' then u else t | [] \<Rightarrow> [])
           in if lower body = ''inf'' \<or> lower body = ''infinity'' then Some (if neg then NegInf else PosInf)
              else if lower body = ''nan'' then Some NaN
              else case parse_number body of
                     None \<Rightarrow> None
                   | Some me \<Rightarrow> Some (rnd_signed neg (of_int (fst me) * 10 powi (snd me))))"

subsection \<open>Writing a number\<close>

text \<open>\<open>str(n)\<close> for \<open>n \<ge> 0\<close>.\<close>

definition digit_char :: "nat \<Rightarrow> char" where
  "digit_char d = ''0123456789'' ! (d mod 10)"

fun dec :: "nat \<Rightarrow> string" where
  "dec n = (if n < 10 then [digit_char n] else dec (n div 10) @ [digit_char (n mod 10)])"

declare dec.simps [simp del]

text \<open>
  The format \<open>{x:.2f}\<close>: the exact value of a finite \<open>x\<close> rounded to two decimal places,
  ties to even; a minus sign whenever the sign bit is set, and no sign otherwise.
\<close>

definition fmt_2f :: "pyfloat \<Rightarrow> string" where
  "fmt_2f x =
     (if is_nan x then ''nan''
      else if is_inf x then (if is_neg x then ''-inf'' else ''inf'')
      else
        let n = nat (round_half_even (\<bar>fval x\<bar> * 100))
        in (if is_neg x then ''-'' else []) @ dec (n div 100) @ ''.''
           @ [digit_char (n mod 100 div 10), digit_char (n mod 10)])"

section \<open>Row ingestion\<close>

text \<open>\<open>MatchBetTuple\<close>: sport, tournament, matchup, bet, live status, odds, result.\<close>

type_synonym bet = "string \<times> string \<times> string \<times> string \<times> string \<times> pyfloat \<times> string"

definition bet_sport :: "bet \<Rightarrow> string" where
  "bet_sport b = fst b"

definition bet_tournament :: "bet \<Rightarrow> string" where
  "bet_tournament b = fst (snd b)"

definition bet_live_status :: "bet \<Rightarrow> string" where
  "bet_live_status b = fst (snd (snd (snd (snd b))))"

definition bet_odds :: "bet \<Rightarrow> pyfloat" where
  "bet_odds b = fst (snd (snd (snd (snd (snd b)))))"

definition bet_result :: "bet \<Rightarrow> string" where
  "bet_result b = snd (snd (snd (snd (snd (snd b)))))"

text \<open>\<open>if len(r) < 8: r = r + [""] * (8 - len(r))\<close>\<close>

definition pad_row :: "string list \<Rightarrow> string list" where
  "pad_row r = (if length r < 8 then r @ replicate (8 - length r) [] else r)"

text \<open>
  The body of the loop of \<open>fetch_matchbet_data\<close> for one raw row: \<open>None\<close> where the
  source says \<open>continue\<close>.  After padding the row has at least eight cells.
\<close>

definition parse_row :: "string list \<Rightarrow> bet option" where
  "parse_row r0 =
     (let r = pad_row r0;
          sport = strip (r ! 0);
          tournament = strip (r ! 1);
          matchup = strip (r ! 2);
          bet = strip (r ! 3);
          live_status = strip (r ! 4);
          odds_s = strip (r ! 5);
          result = strip (r ! 7)
      in if sport = [] then None
         else if result = [] then None
         else case py_float (replace '','' ''.'' odds_s) of
                None \<Rightarrow> None
              | Some odds \<Rightarrow> Some (sport, tournament, matchup, bet, live_status, odds, result))"

text \<open>
  \<open>fetch_matchbet_data\<close> on the rows read from the sheet; \<open>None\<close> stands for a read that
  raised, which the source turns into the empty list.
\<close>

fun ingest :: "string list list \<Rightarrow> bet list" where
  "ingest [] = []"
| "ingest (r # rs) = (case parse_row r of None \<Rightarrow> ingest rs | Some b \<Rightarrow> b # ingest rs)"

definition fetch_matchbet_data :: "string list list option \<Rightarrow> bet list" where
  "fetch_matchbet_data raw = (case raw of None \<Rightarrow> [] | Some rs \<Rightarrow> ingest rs)"

subsection \<open>The ingestion rule in the words of the specification\<close>

text \<open>A raw row read as if padded on the right with empty cells.\<close>

definition cell :: "string list \<Rightarrow> nat \<Rightarrow> string" where
  "cell r i = (if i < length r then r ! i else [])"

text \<open>The odds cell, trimmed, with every comma replaced by a period.\<close>

definition odds_text :: "string list \<Rightarrow> string" where
  "odds_text r = replace '','' ''.'' (strip (cell r 5))"

text \<open>
  A row is kept when its sport and its result are not empty after trimming and its odds
  text reads as a float.
\<close>

definition row_accepted :: "string list \<Rightarrow> bool" where
  "row_accepted r =
     (strip (cell r 0) \<noteq> [] \<and> strip (cell r 7) \<noteq> [] \<and> py_float (odds_text r) \<noteq> None)"

definition row_record :: "string list \<Rightarrow> bet" where
  "row_record r =
     (strip (cell r 0), strip (cell r 1), strip (cell r 2), strip (cell r 3), strip (cell r 4),
      the (py_float (odds_text r)), strip (cell r 7))"

section \<open>Aggregation by sport and odds\<close>

text \<open>\<open>round_odds_key\<close> on a float: \<open>None\<close> where \<open>round\<close> raises.\<close>

definition round_odds_key :: "pyfloat \<Rightarrow> pyfloat option" where
  "round_odds_key v = py_round v 4"

text \<open>The four counters \<open>{'lw': 0, 'lt': 0, 'pw': 0, 'pt': 0}\<close>; they only ever grow from 0.\<close>

record odds_stats =
  lw :: nat
  lt :: nat
  pw :: nat
  pt :: nat

definition zero_stats :: odds_stats where
  "zero_stats = \<lparr>lw = 0, lt = 0, pw = 0, pt = 0\<rparr>"

definition count_bet :: "bool \<Rightarrow> bool \<Rightarrow> odds_stats \<Rightarrow> odds_stats" where
  "count_bet is_live is_win st =
     (if is_live then st\<lparr>lt := lt st + 1, lw := (if is_win then lw st + 1 else lw st)\<rparr>
      else st\<lparr>pt := pt st + 1, pw := (if is_win then pw st + 1 else pw st)\<rparr>)"

text \<open>
  A dictionary keyed by floats, in insertion order.  A key that is looked up is found when
  it equals a stored key; every key given to \<open>float_dict_update\<close> below is a freshly made
  float, so a not-a-number key, which equals nothing, is never found.

  \<open>float_dict_update k f zero d\<close>: \<open>if k not in d: d[k] = zero\<close>, then \<open>d[k] = f(d[k])\<close>.
\<close>

fun float_dict_update :: "pyfloat \<Rightarrow> ('v \<Rightarrow> 'v) \<Rightarrow> 'v \<Rightarrow> (pyfloat \<times> 'v) list \<Rightarrow> (pyfloat \<times> 'v) list" where
  "float_dict_update k f zero [] = [(k, f zero)]"
| "float_dict_update k f zero (e # d) =
     (if feq (fst e) k then (fst e, f (snd e)) # d else e # float_dict_update k f zero d)"

definition is_live_status :: "string \<Rightarrow> bool" where
  "is_live_status live_status =
     (contains ''LIVE'' (upper live_status) \<and> \<not> contains ''NOT'' (upper live_status))"

definition is_win_result :: "string \<Rightarrow> bool" where
  "is_win_result result = (lower result = ''win'')"

type_synonym odds_map = "(pyfloat \<times> odds_stats) list"

text \<open>The body of the first loop of \<open>process_bets_to_cache\<close>.\<close>

definition agg_step :: "(string \<times> odds_map) list \<Rightarrow> bet \<Rightarrow> (string \<times> odds_map) list" where
  "agg_step agg b =
     (let agg1 = (if map_of agg (bet_sport b) = None then agg @ [(bet_sport b, [])] else agg)
      in case round_odds_key (bet_odds b) of
           None \<Rightarrow> agg1
         | Some k \<Rightarrow>
             AList.map_entry (bet_sport b)
               (float_dict_update k
                  (count_bet (is_live_status (bet_live_status b)) (is_win_result (bet_result b)))
                  zero_stats)
               agg1)"

definition aggregate :: "bet list \<Rightarrow> (string \<times> odds_map) list" where
  "aggregate bets = foldl agg_step [] bets"

text \<open>
  \<open>sorted\<close> on entries by their float key.  \<open>sorted\<close> is stable and compares with \<open><\<close>
  only; where \<open><\<close> orders the keys totally (no key is not-a-number), every such sort
  returns the same list as this insertion sort.
\<close>

fun insert_by_key :: "pyfloat \<times> 'v \<Rightarrow> (pyfloat \<times> 'v) list \<Rightarrow> (pyfloat \<times> 'v) list" where
  "insert_by_key x [] = [x]"
| "insert_by_key x (y # ys) = (if flt (fst y) (fst x) then y # insert_by_key x ys else x # y # ys)"

definition sorted_by_key :: "(pyfloat \<times> 'v) list \<Rightarrow> (pyfloat \<times> 'v) list" where
  "sorted_by_key xs = foldr insert_by_key xs []"

text \<open>\<open>RowTuple\<close> and \<open>SheetCacheEntry\<close>.\<close>

type_synonym rates = "pyfloat option \<times> pyfloat option \<times> nat option \<times> nat option"

type_synonym row = "pyfloat \<times> rates"

record sheet_cache_entry =
  rows :: "row list"
  index :: "(pyfloat \<times> rates) list"

definition rates_of :: "odds_stats \<Rightarrow> rates" where
  "rates_of st =
     (let live_wr = (if lt st > 0 then Some (truediv (lw st) (lt st)) else None);
          prem_wr = (if pt st > 0 then Some (truediv (pw st) (pt st)) else None)
      in (live_wr, prem_wr, if lt st > 0 then Some (lt st) else None,
          if pt st > 0 then Some (pt st) else None))"

text \<open>\<open>index[k] = v\<close>\<close>

fun float_dict_set :: "pyfloat \<Rightarrow> 'v \<Rightarrow> (pyfloat \<times> 'v) list \<Rightarrow> (pyfloat \<times> 'v) list" where
  "float_dict_set k v [] = [(k, v)]"
| "float_dict_set k v (e # d) =
     (if feq (fst e) k then (fst e, v) # d else e # float_dict_set k v d)"

text \<open>
  The body of the second loop: the keys in sorted order, each with its own counters, give
  the rows and the index.
\<close>

definition build_entry :: "odds_map \<Rightarrow> sheet_cache_entry" where
  "build_entry odds_map =
     (let entries = sorted_by_key odds_map
      in \<lparr>rows = map (\<lambda>e. (fst e, rates_of (snd e))) entries,
          index = foldl (\<lambda>idx e. float_dict_set (fst e) (rates_of (snd e)) idx) [] entries\<rparr>)"

definition process_bets_to_cache :: "bet list \<Rightarrow> (string \<times> sheet_cache_entry) list" where
  "process_bets_to_cache bets = map (\<lambda>se. (fst se, build_entry (snd se))) (aggregate bets)"

subsection \<open>The aggregation seen from one sport\<close>

text \<open>
  What the first loop does to the dictionary of one sport \<open>s\<close>: only the bets of that
  sport touch it.
\<close>

definition sport_step :: "string \<Rightarrow> odds_map \<Rightarrow> bet \<Rightarrow> odds_map" where
  "sport_step s m b =
     (if bet_sport b = s then
        (case round_odds_key (bet_odds b) of
           None \<Rightarrow> m
         | Some k \<Rightarrow>
             float_dict_update k
               (count_bet (is_live_status (bet_live_status b)) (is_win_result (bet_result b)))
               zero_stats m)
      else m)"

definition sport_buckets :: "string \<Rightarrow> bet list \<Rightarrow> odds_map" where
  "sport_buckets s bets = foldl (sport_step s) [] bets"

text \<open>A count of the output tuple read as a number: an absent count is no observation.\<close>

definition count_or_zero :: "nat option \<Rightarrow> nat" where
  "count_or_zero c = (case c of None \<Rightarrow> 0 | Some n \<Rightarrow> n)"

definition row_count :: "row \<Rightarrow> nat" where
  "row_count r = (case r of (k, lwr, pwr, lc, pc) \<Rightarrow> count_or_zero lc + count_or_zero pc)"



section \<open>Expected value and comparison\<close>

definition fmt_wr :: "pyfloat option \<Rightarrow> string" where
  "fmt_wr wr = (case wr of None \<Rightarrow> ''N/A'' | Some w \<Rightarrow> fmt_2f (fmul w (Fin 100)) @ ''%'')"


text \<open>The three outcomes of the comparison in \<open>render_compare\<close>.\<close>

datatype verdict = A_better | B_better | Both_equal

definition compare_scores :: "pyfloat \<Rightarrow> pyfloat \<Rightarrow> pyfloat \<Rightarrow> pyfloat \<Rightarrow> verdict" where
  "compare_scores odds_a odds_b wr_a wr_b =
     (let score_a = fmul wr_a odds_a; score_b = fmul wr_b odds_b
      in if fgt score_a score_b then A_better
         else if fgt score_b score_a then B_better
         else Both_equal)"

definition count_text :: "nat option \<Rightarrow> string" where
  "count_text c = (case c of None \<Rightarrow> ''N/A'' | Some n \<Rightarrow> dec n)"

text \<open>\<open>Bet {odds:.2f} EV: {ev*100:.2f}% (WR: {wr*100:.2f}%, Count: {c})\<close>\<close>

definition bet_line :: "pyfloat \<Rightarrow> pyfloat \<Rightarrow> pyfloat \<Rightarrow> string \<Rightarrow> string" where
  "bet_line odds ev wr c =
     ''Bet '' @ fmt_2f odds @ '' EV: '' @ fmt_2f (fmul ev (Fin 100)) @ ''% (WR: ''
     @ fmt_2f (fmul wr (Fin 100)) @ ''%, Count: '' @ c @ '')''"

text \<open>\<open>sep.join(xs)\<close>\<close>

fun join :: "string \<Rightarrow> string list \<Rightarrow> string" where
  "join sep [] = []"
| "join sep [x] = x"
| "join sep (x # xs) = x @ sep @ join sep xs"

text \<open>
  \<open>render_compare\<close>: the text shown.  Its caller passes, for a side whose win-rate is
  present, the expected value \<open>(wr * odds) - 1.0\<close> of that side; \<open>None\<close> is the \<open>TypeError\<close>
  raised when a side that is to be shown has no expected value.
\<close>

definition render_compare ::
  "pyfloat \<Rightarrow> pyfloat \<Rightarrow> pyfloat option \<Rightarrow> pyfloat option \<Rightarrow> pyfloat option \<Rightarrow> pyfloat option
     \<Rightarrow> string \<Rightarrow> string \<Rightarrow> nat option \<Rightarrow> nat option \<Rightarrow> string option" where
  "render_compare odds_a odds_b wr_a wr_b ev_a ev_b sport bet_type count_a count_b =
     (let label_type = (if bet_type = ''Live'' then ''Live'' else ''Prematch'')
      in case wr_a of
           None \<Rightarrow>
             (case wr_b of
                None \<Rightarrow>
                  Some (''Both odds are missing '' @ label_type @ '' WR data: '' @ fmt_2f odds_a
                        @ '' and '' @ fmt_2f odds_b @ ''.'')
              | Some wb \<Rightarrow>
                  (case ev_b of
                     None \<Rightarrow> None
                   | Some eb \<Rightarrow>
                       Some (''Odds '' @ fmt_2f odds_a @ '' is missing '' @ label_type @ '' WR.''
                             @ [CHR 0x0A, CHR 0x0A] @ bet_line odds_b eb wb (count_text count_b))))
         | Some wa \<Rightarrow>
             (case wr_b of
                None \<Rightarrow>
                  (case ev_a of
                     None \<Rightarrow> None
                   | Some ea \<Rightarrow>
                       Some (''Odds '' @ fmt_2f odds_b @ '' is missing '' @ label_type @ '' WR.''
                             @ [CHR 0x0A, CHR 0x0A] @ bet_line odds_a ea wa (count_text count_a)))
              | Some wb \<Rightarrow>
                  (let better = (case compare_scores odds_a odds_b wa wb of
                                   A_better \<Rightarrow> ''Bet '' @ fmt_2f odds_a @ '' is better''
                                 | B_better \<Rightarrow> ''Bet '' @ fmt_2f odds_b @ '' is better''
                                 | Both_equal \<Rightarrow> ''Both bets are equal'');
                       notes =
                         (if count_a = Some 1
                          then [''Note: Odds '' @ fmt_2f odds_a @ '' has only 1 count.''] else [])
                         @ (if count_b = Some 1
                            then [''Note: Odds '' @ fmt_2f odds_b @ '' has only 1 count.''] else [])
                   in case ev_a of
                        None \<Rightarrow> None
                      | Some ea \<Rightarrow>
                          (case ev_b of
                             None \<Rightarrow> None
                           | Some eb \<Rightarrow>
                               Some (better @ '' ('' @ bet_type @ '' - '' @ sport @ '')''
                                     @ [CHR 0x0A, CHR 0x0A]
                                     @ bet_line odds_a ea wa (count_text count_a) @ [CHR 0x0A]
                                     @ bet_line odds_b eb wb (count_text count_b)
                                     @ (if notes = [] then []
                                        else [CHR 0x0A, CHR 0x0A] @ join '' '' notes))))))"

section \<open>Statistics by sport and tournament\<close>

record tstat =
  wins :: nat
  total :: nat

text \<open>
  \<open>stats[sport][tournament] = {'wins': .., 'total': ..}\<close>: dictionaries keyed by strings, in
  insertion order.  The body of the loop of \<open>show_statistics_panel\<close>:
\<close>

definition count_result :: "string \<Rightarrow> tstat \<Rightarrow> tstat" where
  "count_result result t =
     \<lparr>wins = (if lower result = ''win'' then wins t + 1 else wins t), total = total t + 1\<rparr>"

text \<open>
  The last five lines of the loop body, on the dictionary of one sport: a tournament
  not seen yet gets the counters \<open>{'wins': 0, 'total': 0}\<close>, then the counters of
  the tournament are increased.
\<close>

definition count_tournament :: "string \<Rightarrow> string \<Rightarrow> (string \<times> tstat) list \<Rightarrow> (string \<times> tstat) list" where
  "count_tournament norm_tourney result ts =
     (if map_of ts norm_tourney = None
      then ts @ [(norm_tourney, count_result result \<lparr>wins = 0, total = 0\<rparr>)]
      else AList.map_entry norm_tourney (count_result result) ts)"

definition stats_step :: "(string \<times> (string \<times> tstat) list) list \<Rightarrow> bet \<Rightarrow> (string \<times> (string \<times> tstat) list) list" where
  "stats_step stats b =
     (if bet_sport b = [] then stats
      else
        let sport = (if bet_sport b = ''CStwo'' then ''CS2'' else bet_sport b)
        in if bet_tournament b = [] then stats
           else
             let norm_tourney = normalize_tournament_name (bet_tournament b)
             in if norm_tourney = [] then stats
                else
                  let stats1 = (if map_of stats sport = None then stats @ [(sport, [])] else stats)
                  in AList.map_entry sport (count_tournament norm_tourney (bet_result b)) stats1)"

definition tournament_stats :: "bet list \<Rightarrow> (string \<times> (string \<times> tstat) list) list" where
  "tournament_stats bets = foldl stats_step [] bets"

text \<open>\<open>sport_totals[s]\<close>, from the tournaments of one sport.\<close>

definition sport_total :: "(string \<times> tstat) list \<Rightarrow> tstat" where
  "sport_total tourneys =
     \<lparr>wins = sum_list (map (\<lambda>t. wins (snd t)) tourneys),
      total = sum_list (map (\<lambda>t. total (snd t)) tourneys)\<rparr>"

text \<open>
  \<open>sorted(xs, key=k, reverse=True)\<close> for a key that is a count: a stable sort by
  descending key.
\<close>

definition sorted_desc :: "('a \<Rightarrow> nat) \<Rightarrow> 'a list \<Rightarrow> 'a list" where
  "sorted_desc k xs = sort_key (\<lambda>x. - int (k x)) xs"

text \<open>
  The tree that is shown: the sports by descending total, each with its counters and with
  its tournaments by descending total.
\<close>

definition statistics_tree :: "bet list \<Rightarrow> (string \<times> tstat \<times> (string \<times> tstat) list) list" where
  "statistics_tree bets =
     map (\<lambda>st. (fst st, sport_total (snd st), sorted_desc (\<lambda>t. total (snd t)) (snd st)))
         (sorted_desc (\<lambda>st. total (sport_total (snd st))) (tournament_stats bets))"

subsection \<open>The statistics view in the words of the specification\<close>

text \<open>The sport under which a record is grouped: the one alias applied.\<close>

definition view_sport :: "bet \<Rightarrow> string" where
  "view_sport b = (if bet_sport b = ''CStwo'' then ''CS2'' else bet_sport b)"

text \<open>
  A record is part of the view unless its sport is empty, its tournament is empty, or its
  normalized tournament name is empty.
\<close>

definition in_view :: "bet \<Rightarrow> bool" where
  "in_view b =
     (bet_sport b \<noteq> [] \<and> bet_tournament b \<noteq> []
      \<and> normalize_tournament_name (bet_tournament b) \<noteq> [])"

text \<open>The records of the view grouped under a sport, and under a sport and a tournament.\<close>

definition sport_bets :: "string \<Rightarrow> bet list \<Rightarrow> bet list" where
  "sport_bets s bets = filter (\<lambda>b. in_view b \<and> view_sport b = s) bets"

definition view_bets :: "string \<Rightarrow> string \<Rightarrow> bet list \<Rightarrow> bet list" where
  "view_bets s t bets =
     filter (\<lambda>b. normalize_tournament_name (bet_tournament b) = t) (sport_bets s bets)"

definition won :: "bet \<Rightarrow> bool" where
  "won b = (lower (bet_result b) = ''win'')"

text \<open>\<open>stats[s][t]\<close> where both keys exist.\<close>

definition stat_lookup :: "(string \<times> (string \<times> tstat) list) list \<Rightarrow> string \<Rightarrow> string \<Rightarrow> tstat option" where
  "stat_lookup stats s t = (case map_of stats s of None \<Rightarrow> None | Some ts \<Rightarrow> map_of ts t)"

text \<open>What the loop does to the dictionary of one sport \<open>s\<close>.\<close>

definition sport_tourneys :: "string \<Rightarrow> bet list \<Rightarrow> (string \<times> tstat) list" where
  "sport_tourneys s bets =
     foldl (\<lambda>ts b. count_tournament (normalize_tournament_name (bet_tournament b)) (bet_result b) ts)
       [] (sport_bets s bets)"

section \<open>Properties of the tournament name normalizer\<close>

lemma normalize_slash_year: "normalize_tournament_name ''a/2024/b'' = ''a//b''"
  by code_simp

lemma normalize_double_slash: "normalize_tournament_name ''a//b'' = ''a''"
  by code_simp

lemma normalize_blast: "normalize_tournament_name ''BLAST Premier Spring 2024 Groups'' = ''BLAST Premier''"
  by code_simp

lemma normalize_blast_again: "normalize_tournament_name ''BLAST Premier'' = ''BLAST Premier''"
  by code_simp

lemma normalize_esl: "normalize_tournament_name ''ESL Pro League Season 19'' = ''ESL Pro League''"
  by code_simp

lemma normalize_esl_again: "normalize_tournament_name ''ESL Pro League'' = ''ESL Pro League''"
  by code_simp

text \<open>
  C7, as stated (normalization is idempotent on every input), fails: removing the year from
  \<open>a/2024/b\<close> leaves \<open>a//b\<close>, and a second pass cuts that at the double slash.
\<close>

theorem normalize_not_idempotent:
  "normalize_tournament_name (normalize_tournament_name ''a/2024/b'')
     \<noteq> normalize_tournament_name ''a/2024/b''"
  by (simp add: normalize_slash_year normalize_double_slash)

text \<open>
  C7, amended: normalization is idempotent on the representative tournament titles
  \<open>BLAST Premier Spring 2024 Groups\<close> and \<open>ESL Pro League Season 19\<close>, whose normal forms are
  \<open>BLAST Premier\<close> and \<open>ESL Pro League\<close>.
\<close>

theorem normalize_idempotent_representative:
  "normalize_tournament_name (normalize_tournament_name ''BLAST Premier Spring 2024 Groups'')
     = normalize_tournament_name ''BLAST Premier Spring 2024 Groups''
   \<and> normalize_tournament_name ''BLAST Premier Spring 2024 Groups'' = ''BLAST Premier''
   \<and> normalize_tournament_name (normalize_tournament_name ''ESL Pro League Season 19'')
     = normalize_tournament_name ''ESL Pro League Season 19''
   \<and> normalize_tournament_name ''ESL Pro League Season 19'' = ''ESL Pro League''"
  by (simp add: normalize_blast normalize_blast_again normalize_esl normalize_esl_again)

section \<open>Properties of the expected value\<close>



section \<open>Properties of row ingestion\<close>

lemma ingest_example_short:
  "ingest [[''CS2'', ''ESL Pro League'', ''TeamA vs TeamB'', ''Moneyline'', ''Not Live'', ''1,85'', ''Win'']] = []"
  by code_simp

lemma ingest_example_full:
  "ingest [[''CS2'', ''ESL Pro League'', ''TeamA vs TeamB'', ''Moneyline'', ''Not Live'', ''1,85'', [], ''Win'']]
     = [(''CS2'', ''ESL Pro League'', ''TeamA vs TeamB'', ''Moneyline'', ''Not Live'',
         Fin (4165829655317709 / 2251799813685248), ''Win'')]"
  by code_simp

lemma float_1_85: "py_float ''1.85'' = Some (Fin (4165829655317709 / 2251799813685248))"
  by code_simp

lemma rnd_1_85: "rnd (185 / 100) = Fin (4165829655317709 / 2251799813685248)"
  by code_simp

lemma process_example:
  "process_bets_to_cache
     [(''CS2'', ''ESL Pro League'', ''TeamA vs TeamB'', ''Moneyline'', ''Not Live'',
       Fin (4165829655317709 / 2251799813685248), ''Win'')]
   = [(''CS2'',
       \<lparr>rows = [(Fin (4165829655317709 / 2251799813685248), None, Some (Fin 1), None, Some 1)],
        index = [(Fin (4165829655317709 / 2251799813685248), None, Some (Fin 1), None, Some 1)]\<rparr>)]"
  by code_simp

lemma aggregate_example:
  "aggregate
     [(''CS2'', ''ESL Pro League'', ''TeamA vs TeamB'', ''Moneyline'', ''Not Live'',
       Fin (4165829655317709 / 2251799813685248), ''Win'')]
   = [(''CS2'', [(Fin (4165829655317709 / 2251799813685248), \<lparr>lw = 0, lt = 0, pw = 1, pt = 1\<rparr>)])]"
  by code_simp

text \<open>
  C1, as stated, fails: the example row has seven cells, the result is read from the
  eighth, which padding leaves empty, and the row is dropped.
\<close>

theorem example_row_dropped:
  "fetch_matchbet_data
     (Some [[''CS2'', ''ESL Pro League'', ''TeamA vs TeamB'', ''Moneyline'', ''Not Live'', ''1,85'', ''Win'']])
   = []"
  by (simp only: fetch_matchbet_data_def option.case ingest_example_short)

text \<open>
  C1, amended: with the result in the eighth cell (the seventh left empty), the row gives
  exactly one record, with sport \<open>CS2\<close>, result \<open>Win\<close> and as odds the float written \<open>1.85\<close>;
  aggregating that record gives, for the sport \<open>CS2\<close>, the single key \<open>1.85\<close> with one
  prematch bet, won, and no live bet: the live win-rate and the live count are absent,
  the prematch win-rate is \<open>1.0\<close> and the prematch count is 1.
\<close>

theorem example_row_eight_cells:
  "fetch_matchbet_data
     (Some [[''CS2'', ''ESL Pro League'', ''TeamA vs TeamB'', ''Moneyline'', ''Not Live'', ''1,85'', [], ''Win'']])
   = [(''CS2'', ''ESL Pro League'', ''TeamA vs TeamB'', ''Moneyline'', ''Not Live'', the (py_float ''1.85''), ''Win'')]
   \<and> py_float ''1.85'' = Some (rnd (185 / 100))
   \<and> aggregate
       (fetch_matchbet_data
          (Some [[''CS2'', ''ESL Pro League'', ''TeamA vs TeamB'', ''Moneyline'', ''Not Live'', ''1,85'', [], ''Win'']]))
     = [(''CS2'', [(rnd (185 / 100), \<lparr>lw = 0, lt = 0, pw = 1, pt = 1\<rparr>)])]
   \<and> process_bets_to_cache
       (fetch_matchbet_data
          (Some [[''CS2'', ''ESL Pro League'', ''TeamA vs TeamB'', ''Moneyline'', ''Not Live'', ''1,85'', [], ''Win'']]))
     = [(''CS2'',
         \<lparr>rows = [(rnd (185 / 100), None, Some (Fin 1), None, Some 1)],
          index = [(rnd (185 / 100), None, Some (Fin 1), None, Some 1)]\<rparr>)]"
  by (simp only: fetch_matchbet_data_def option.case ingest_example_full float_1_85 option.sel
      rnd_1_85 aggregate_example process_example simp_thms)

lemma pad_row_nth: "i < 8 \<Longrightarrow> pad_row r ! i = cell r i"
  by (simp add: pad_row_def cell_def nth_append)

lemma parse_row_eq: "parse_row r = (if row_accepted r then Some (row_record r) else None)"
  by (auto simp: parse_row_def Let_def pad_row_nth row_accepted_def row_record_def odds_text_def
      split: option.splits)

lemma ingest_eq: "ingest rs = map row_record (filter row_accepted rs)"
  by (induction rs) (simp_all add: parse_row_eq)

lemma ingest_negative:
  "ingest [[''CS2'', [], [], [], [], ''-1,5'', [], ''Win'']]
     = [(''CS2'', [], [], [], [], Fin (- (3 / 2)), ''Win'')]"
  by code_simp

lemma ingest_mixed:
  "ingest [[''CS2'', [], [], [], [], ''nan'', [], ''Win''],
           [''CS2'', [], [], [], [], ''abc'', [], ''Win''],
           [[], [], [], [], [], ''2'', [], ''Win''],
           [''CS2'', [], [], [], [], ''2'', [], []],
           [''Dota'', [], [], [], [], ''0'']]
     = [(''CS2'', [], [], [], [], NaN, ''Win'')]"
  by code_simp

text \<open>
  C2, as stated, fails: nothing at ingestion looks at the sign or the size of the odds.
  A row whose odds cell is \<open>-1,5\<close> is kept, with the odds \<open>-1.5\<close>.
\<close>

theorem negative_odds_ingested:
  "fetch_matchbet_data (Some [[''CS2'', [], [], [], [], ''-1,5'', [], ''Win'']])
     = [(''CS2'', [], [], [], [], Fin (- (3 / 2)), ''Win'')]
   \<and> \<not> flt (Fin 0) (Fin (- (3 / 2)))"
  by (simp add: fetch_matchbet_data_def ingest_negative del: ingest.simps)

text \<open>
  C2, amended: every record that ingestion produces has a non-empty sport, a non-empty
  result, and as odds the float read from the odds cell of its row after trimming and
  replacing commas by periods; the records are, in the order of the rows, those of the
  rows whose sport and result are not empty and whose odds text reads as a float, and every
  other row is dropped.  (The float may be negative, zero, infinite or not a number.)
\<close>

theorem ingestion_keeps_accepted_rows:
  "fetch_matchbet_data (Some rs) = map row_record (filter row_accepted rs)
   \<and> (\<forall>b \<in> set (fetch_matchbet_data (Some rs)).
         bet_sport b \<noteq> [] \<and> bet_result b \<noteq> []
         \<and> (\<exists>r \<in> set rs. b = row_record r \<and> py_float (odds_text r) = Some (bet_odds b)))
   \<and> (\<forall>r \<in> set rs. \<not> row_accepted r \<longrightarrow> parse_row r = None)"
proof -
  have eq: "fetch_matchbet_data (Some rs) = map row_record (filter row_accepted rs)"
    by (simp add: fetch_matchbet_data_def ingest_eq)
  have "bet_sport (row_record r) \<noteq> [] \<and> bet_result (row_record r) \<noteq> []
        \<and> py_float (odds_text r) = Some (bet_odds (row_record r))"
    if "row_accepted r" for r
    using that by (auto simp: row_accepted_def row_record_def bet_sport_def bet_result_def bet_odds_def)
  then show ?thesis
    unfolding eq by (auto simp: parse_row_eq)
qed

theorem ingestion_keeps_accepted_rows_witness:
  "fetch_matchbet_data
     (Some [[''CS2'', [], [], [], [], ''nan'', [], ''Win''],
            [''CS2'', [], [], [], [], ''abc'', [], ''Win''],
            [[], [], [], [], [], ''2'', [], ''Win''],
            [''CS2'', [], [], [], [], ''2'', [], []],
            [''Dota'', [], [], [], [], ''0'']])
   = [(''CS2'', [], [], [], [], NaN, ''Win'')]
   \<and> map row_record
       (filter row_accepted
          [[''CS2'', [], [], [], [], ''nan'', [], ''Win''],
           [''CS2'', [], [], [], [], ''abc'', [], ''Win''],
           [[], [], [], [], [], ''2'', [], ''Win''],
           [''CS2'', [], [], [], [], ''2'', [], []],
           [''Dota'', [], [], [], [], ''0'']])
     = [(''CS2'', [], [], [], [], NaN, ''Win'')]"
  using ingestion_keeps_accepted_rows
          [of "[[''CS2'', [], [], [], [], ''nan'', [], ''Win''],
                [''CS2'', [], [], [], [], ''abc'', [], ''Win''],
                [[], [], [], [], [], ''2'', [], ''Win''],
                [''CS2'', [], [], [], [], ''2'', [], []],
                [''Dota'', [], [], [], [], ''0'']]"]
  by (simp only: fetch_matchbet_data_def option.case ingest_mixed simp_thms)

section \<open>Floating-point rounding\<close>

lemma powi_nat: "0 \<le> e \<Longrightarrow> (2::rat) powi e = 2 ^ nat e"
  by (simp add: power_int_def)

lemma ilog2_ge1:
  assumes "1 \<le> q"
  shows "2 powi ilog2 q \<le> q \<and> q < 2 powi (ilog2 q + 1)"
proof -
  let ?x = "\<lfloor>q\<rfloor>"
  have x: "0 < ?x" using assms by simp
  have b: "2 ^ nat (bitlen ?x - 1) \<le> ?x" "?x < 2 ^ nat (bitlen ?x)"
    using bitlen_bounds[OF x] by auto
  have ge: "1 \<le> bitlen ?x" using x by (simp add: bitlen_alt_def)
  have e: "ilog2 q = bitlen ?x - 1" using assms by (simp add: ilog2_def)
  have "(of_int (2 ^ nat (bitlen ?x - 1)) :: rat) \<le> q"
    using b(1) by (simp only: le_floor_iff)
  then have lo: "(2::rat) ^ nat (bitlen ?x - 1) \<le> q" by simp
  have "q < of_int (2 ^ nat (bitlen ?x))"
    using b(2) by (simp only: floor_less_iff)
  then have hi: "q < (2::rat) ^ nat (bitlen ?x)" by simp
  show ?thesis
    unfolding e using lo hi ge by (simp add: powi_nat)
qed

lemma ilog2_lt1:
  assumes "0 < q" "q < 1"
  shows "2 powi ilog2 q \<le> q \<and> q < 2 powi (ilog2 q + 1)"
proof -
  let ?c = "\<lceil>1 / q\<rceil>"
  let ?n = "bitlen (?c - 1)"
  have r: "1 < 1 / q" using assms by simp
  then have c: "0 < ?c - 1" by (simp add: less_ceiling_iff)
  have b: "2 ^ nat (?n - 1) \<le> ?c - 1" "?c - 1 < 2 ^ nat ?n"
    using bitlen_bounds[OF c] by auto
  have ge: "1 \<le> ?n" using c by (simp add: bitlen_alt_def)
  have e: "ilog2 q = - ?n" using assms by (simp add: ilog2_def)
  have "?c \<le> 2 ^ nat ?n" using b(2) by simp
  then have "1 / q \<le> of_int (2 ^ nat ?n)" by (simp only: ceiling_le_iff)
  then have "1 / q \<le> 2 ^ nat ?n" by simp
  then have lo: "1 / 2 ^ nat ?n \<le> q"
    using assms(1) by (simp add: field_simps)
  have "2 ^ nat (?n - 1) < ?c" using b(1) by simp
  then have "of_int (2 ^ nat (?n - 1)) < 1 / q" by (simp only: less_ceiling_iff)
  then have "2 ^ nat (?n - 1) < 1 / q" by simp
  then have hi: "q < 1 / 2 ^ nat (?n - 1)"
    using assms(1) by (simp add: field_simps)
  have p1: "(2::rat) powi (- ?n) = 1 / 2 ^ nat ?n"
    using ge by (simp add: power_int_def field_simps)
  have p2: "(2::rat) powi (- ?n + 1) = 1 / 2 ^ nat (?n - 1)"
    using ge by (simp add: power_int_def field_simps nat_diff_distrib)
  show ?thesis unfolding e p1 p2 using lo hi by simp
qed

lemma ilog2_bounds:
  assumes "0 < q"
  shows "2 powi ilog2 q \<le> q" and "q < 2 powi (ilog2 q + 1)"
  using ilog2_ge1[of q] ilog2_lt1[of q] assms by (cases "1 \<le> q"; simp)+

lemma powi2_mono: "a \<le> b \<Longrightarrow> (2::rat) powi a \<le> 2 powi b"
  by (rule power_int_increasing) auto

lemma powi2_less_imp: "(2::rat) powi a < 2 powi b \<Longrightarrow> a < b"
  using powi2_mono[of b a] by (cases "a < b") auto

lemma ilog2_unique:
  assumes "0 < q" "2 powi e \<le> q" "q < 2 powi (e + 1)"
  shows "ilog2 q = e"
proof -
  have "(2::rat) powi e < 2 powi (ilog2 q + 1)"
    using assms(2) ilog2_bounds(2)[OF assms(1)] by simp
  then have "e < ilog2 q + 1" by (rule powi2_less_imp)
  moreover have "(2::rat) powi ilog2 q < 2 powi (e + 1)"
    using assms(3) ilog2_bounds(1)[OF assms(1)] by simp
  then have "ilog2 q < e + 1" by (rule powi2_less_imp)
  ultimately show ?thesis by simp
qed



lemma rhe_of_int: "round_half_even (of_int n) = n"
  by (simp add: round_half_even_def)

lemma rhe_bounds:
  "of_int (round_half_even q) - 1 / 2 \<le> q" "q \<le> of_int (round_half_even q) + 1 / 2"
proof -
  define x where "x = \<lfloor>q\<rfloor>"
  have f: "of_int x \<le> q" "q < of_int x + 1" unfolding x_def by linarith+
  have r: "round_half_even q =
             (if q - of_int x < 1 / 2 then x else if 1 / 2 < q - of_int x then x + 1
              else if even x then x else x + 1)"
    by (simp add: round_half_even_def Let_def x_def)
  show "of_int (round_half_even q) - 1 / 2 \<le> q" "q \<le> of_int (round_half_even q) + 1 / 2"
    unfolding r using f by (auto split: if_splits)
qed

lemma rhe_mono:
  assumes "p \<le> q"
  shows "round_half_even p \<le> round_half_even q"
proof (cases "p = q")
  case True
  then show ?thesis by simp
next
  case False
  with assms have "p < q" by simp
  then have "(of_int (round_half_even p) :: rat) < of_int (round_half_even q) + 1"
    using rhe_bounds(1)[of p] rhe_bounds(2)[of q] by linarith
  then have "(of_int (round_half_even p) :: rat) < of_int (round_half_even q + 1)" by simp
  then have "round_half_even p < round_half_even q + 1" by (simp only: of_int_less_iff)
  then show ?thesis by simp
qed

lemma rhe_nonneg: "0 \<le> q \<Longrightarrow> 0 \<le> round_half_even q"
  using rhe_mono[of 0 q] rhe_of_int[of 0] by simp

lemma ilog2_mono:
  assumes "0 < p" "p \<le> q"
  shows "ilog2 p \<le> ilog2 q"
proof -
  have "(2::rat) powi ilog2 p < 2 powi (ilog2 q + 1)"
    using ilog2_bounds(1)[OF assms(1)] ilog2_bounds(2)[of q] assms by simp
  then show ?thesis using powi2_less_imp by fastforce
qed

lemma ulp_exp_pos: "0 < q \<Longrightarrow> ulp_exp q = max (ilog2 q - 52) (- 1074)"
  by (simp add: ulp_exp_def)

lemma ulp_exp_mono: "0 < p \<Longrightarrow> p \<le> q \<Longrightarrow> ulp_exp p \<le> ulp_exp q"
  using ilog2_mono[of p q] by (simp add: ulp_exp_pos)

text \<open>The scaled magnitude lies below \<open>2^53\<close>.\<close>

lemma scaled_less:
  assumes "0 < q"
  shows "q / 2 powi ulp_exp q < 2 ^ 53"
proof -
  have "q < 2 powi (ilog2 q + 1)" using ilog2_bounds(2)[OF assms] .
  also have "\<dots> \<le> 2 powi (ulp_exp q + 53)"
    by (rule powi2_mono) (simp add: ulp_exp_pos assms)
  also have "\<dots> = 2 powi ulp_exp q * 2 ^ 53"
    by (simp add: power_int_add)
  finally show ?thesis by (simp add: field_simps)
qed

lemma rnd_mag_nonneg: "0 < q \<Longrightarrow> 0 \<le> rnd_mag q"
  by (simp add: rnd_mag_def rhe_nonneg)

lemma rnd_mag_upper:
  assumes "0 < q"
  shows "rnd_mag q \<le> 2 powi (ulp_exp q + 53)"
proof -
  have "round_half_even (q / 2 powi ulp_exp q) \<le> round_half_even (of_int (2 ^ 53))"
    using scaled_less[OF assms] by (intro rhe_mono) simp
  then have "round_half_even (q / 2 powi ulp_exp q) \<le> 2 ^ 53"
    by (simp only: rhe_of_int)
  then have "(of_int (round_half_even (q / 2 powi ulp_exp q)) :: rat) \<le> of_int (2 ^ 53)"
    by (simp only: of_int_le_iff)
  then have "rnd_mag q \<le> 2 ^ 53 * 2 powi ulp_exp q"
    unfolding rnd_mag_def by (intro mult_right_mono) simp_all
  also have "\<dots> = 2 powi (ulp_exp q + 53)" by (simp add: power_int_add)
  finally show ?thesis .
qed

lemma rnd_mag_lower:
  assumes "0 < q" "- 1074 \<le> ilog2 q - 52"
  shows "2 powi ilog2 q \<le> rnd_mag q"
proof -
  have u: "ulp_exp q = ilog2 q - 52" using assms by (simp add: ulp_exp_pos)
  have "2 powi ilog2 q = 2 powi ulp_exp q * (2::rat) ^ 52"
    unfolding u by (simp add: power_int_diff)
  then have "(2::rat) ^ 52 \<le> q / 2 powi ulp_exp q"
    using ilog2_bounds(1)[OF assms(1)] by (simp add: field_simps)
  then have "round_half_even (of_int (2 ^ 52)) \<le> round_half_even (q / 2 powi ulp_exp q)"
    by (intro rhe_mono) simp
  then have "2 ^ 52 \<le> round_half_even (q / 2 powi ulp_exp q)"
    by (simp only: rhe_of_int)
  then have "(of_int (2 ^ 52) :: rat) \<le> of_int (round_half_even (q / 2 powi ulp_exp q))"
    by (simp only: of_int_le_iff)
  then have "2 ^ 52 * 2 powi ulp_exp q \<le> rnd_mag q"
    unfolding rnd_mag_def by (intro mult_right_mono) simp_all
  moreover have "2 ^ 52 * 2 powi ulp_exp q = (2::rat) powi ilog2 q"
    unfolding u by (simp add: power_int_diff)
  ultimately show ?thesis by simp
qed

lemma rnd_mag_mono:
  assumes "0 < p" "p \<le> q"
  shows "rnd_mag p \<le> rnd_mag q"
proof (cases "ulp_exp p = ulp_exp q")
  case True
  have "round_half_even (p / 2 powi ulp_exp q) \<le> round_half_even (q / 2 powi ulp_exp q)"
    using assms by (intro rhe_mono divide_right_mono) simp_all
  then have "(of_int (round_half_even (p / 2 powi ulp_exp q)) :: rat)
               \<le> of_int (round_half_even (q / 2 powi ulp_exp q))"
    by (simp only: of_int_le_iff)
  then show ?thesis
    unfolding rnd_mag_def True by (intro mult_right_mono) simp_all
next
  case False
  have q: "0 < q" using assms by simp
  from False have lt: "ulp_exp p < ulp_exp q"
    using ulp_exp_mono[OF assms] by simp
  then have n: "- 1074 \<le> ilog2 q - 52" and le: "ulp_exp p + 53 \<le> ilog2 q"
    unfolding ulp_exp_pos[OF assms(1)] ulp_exp_pos[OF q] by linarith+
  have "rnd_mag p \<le> 2 powi (ulp_exp p + 53)" by (rule rnd_mag_upper[OF assms(1)])
  also have "\<dots> \<le> 2 powi ilog2 q" by (rule powi2_mono[OF le])
  also have "\<dots> \<le> rnd_mag q" by (rule rnd_mag_lower[OF q n])
  finally show ?thesis .
qed




lemma overflow_threshold_pos: "0 < overflow_threshold"
  by (simp add: overflow_threshold_def)

lemma rnd_mag_id:
  assumes "0 < q" "is_double q"
  shows "rnd_mag q = q"
proof -
  define m where "m = q / 2 powi ulp_exp q"
  have "of_int \<lfloor>m\<rfloor> = m"
    using assms by (simp add: is_double_def Let_def m_def)
  then have "round_half_even m = \<lfloor>m\<rfloor>"
    by (metis rhe_of_int)
  then have "rnd_mag q = of_int \<lfloor>m\<rfloor> * 2 powi ulp_exp q"
    by (simp add: rnd_mag_def m_def)
  also have "\<dots> = m * 2 powi ulp_exp q"
    using \<open>of_int \<lfloor>m\<rfloor> = m\<close> by simp
  also have "\<dots> = q" by (simp add: m_def)
  finally show ?thesis .
qed

lemma rnd_mag_one: "rnd_mag 1 = 1"
  by code_simp

lemma rnd_mag_two_54: "rnd_mag 18014398509481984 = 18014398509481984"
  by code_simp

lemma rnd_signed_Fin:
  assumes "0 < q" "rnd_mag q < overflow_threshold"
  shows "rnd_signed neg q = (if rnd_mag q = 0 then (if neg then NegZero else Fin 0)
                            else Fin (if neg then - rnd_mag q else rnd_mag q))"
  using assms by (simp add: rnd_signed_def Let_def)

lemma truediv_unit:
  assumes "a \<le> b" "0 < b"
  shows "\<exists>q. truediv a b = Fin q \<and> 0 \<le> q \<and> q \<le> 1"
proof (cases "a = 0")
  case True
  then show ?thesis
    by (simp add: truediv_def rnd_def rnd_signed_def overflow_threshold_def)
next
  case False
  define q :: rat where "q = of_nat a / of_nat b"
  have q: "0 < q" "q \<le> 1" using assms False by (simp_all add: q_def)
  have le: "rnd_mag q \<le> 1" using rnd_mag_mono[OF q] rnd_mag_one by simp
  have "rnd_mag q < overflow_threshold"
    using le by (simp add: overflow_threshold_def)
  then have "truediv a b = (if rnd_mag q = 0 then Fin 0 else Fin (rnd_mag q))"
    using q rnd_signed_Fin[of q False] by (simp add: truediv_def rnd_def q_def[symmetric])
  then show ?thesis using le rnd_mag_nonneg[OF q(1)] by auto
qed

lemma ilog2_two_53: "ilog2 9007199254740992 = 53"
  by code_simp

lemma double_integer:
  assumes "is_double q" "9007199254740992 \<le> \<bar>q\<bar>"
  shows "\<exists>k. \<bar>q\<bar> = of_int k"
proof -
  let ?a = "\<bar>q\<bar>"
  have a: "0 < ?a" using assms(2) by linarith
  have "53 \<le> ilog2 ?a"
    using ilog2_mono[of 9007199254740992 ?a] assms(2) by (simp add: ilog2_two_53)
  then have u: "ulp_exp q = ilog2 ?a - 52" "1 \<le> ulp_exp q"
    by (simp_all add: ulp_exp_def)
  define m where "m = ?a / 2 powi ulp_exp q"
  have "q \<noteq> 0" using a by simp
  then have im: "of_int \<lfloor>m\<rfloor> = m"
    using assms(1) by (simp add: is_double_def Let_def m_def)
  have "?a = m * 2 powi ulp_exp q" by (simp add: m_def)
  also have "\<dots> = of_int \<lfloor>m\<rfloor> * 2 powi ulp_exp q"
    by (simp only: im)
  also have "\<dots> = of_int \<lfloor>m\<rfloor> * 2 ^ nat (ulp_exp q)"
    using u(2) by (simp add: power_int_def)
  also have "\<dots> = of_int (\<lfloor>m\<rfloor> * 2 ^ nat (ulp_exp q))" by simp
  finally show ?thesis by blast
qed

lemma is_double_abs: "is_double \<bar>q\<bar> = is_double q"
  by (simp add: is_double_def ulp_exp_def)

lemma round_decimal_bounded:
  assumes "is_double q" "0 < R" "R = of_int (round_half_even (\<bar>q\<bar> * 10 ^ n)) / 10 ^ n"
  shows "rnd_mag R < overflow_threshold"
proof (cases "9007199254740992 \<le> \<bar>q\<bar>")
  case True
  then obtain k where k: "\<bar>q\<bar> = of_int k" using double_integer[OF assms(1)] by blast
  have "\<bar>q\<bar> * 10 ^ n = of_int (k * 10 ^ n)" by (simp add: k)
  then have "round_half_even (\<bar>q\<bar> * 10 ^ n) = k * 10 ^ n"
    by (simp only: rhe_of_int)
  then have R: "R = \<bar>q\<bar>" by (simp add: assms(3) k)
  have "q \<noteq> 0" using assms(2) R by auto
  then have "\<bar>q\<bar> < overflow_threshold" using assms(1) by (simp add: is_double_def)
  moreover have "rnd_mag \<bar>q\<bar> = \<bar>q\<bar>"
    using rnd_mag_id[of "\<bar>q\<bar>"] assms(1) \<open>q \<noteq> 0\<close> by (simp add: is_double_abs)
  ultimately show ?thesis by (simp add: R)
next
  case False
  have "of_int (round_half_even (\<bar>q\<bar> * 10 ^ n)) \<le> \<bar>q\<bar> * 10 ^ n + 1 / 2"
    using rhe_bounds(1)[of "\<bar>q\<bar> * 10 ^ n"] by simp
  then have "R \<le> (\<bar>q\<bar> * 10 ^ n + 1 / 2) / 10 ^ n"
    unfolding assms(3) by (intro divide_right_mono) simp_all
  also have "\<dots> = \<bar>q\<bar> + (1 / 2) / 10 ^ n" by (simp add: field_simps)
  also have "\<dots> \<le> \<bar>q\<bar> + 1 / 2"
  proof -
    have "(1::rat) \<le> 10 ^ n" by simp
    then have "(1 / 2) / (10::rat) ^ n \<le> 1 / 2" by (simp add: field_simps)
    then show ?thesis by simp
  qed
  finally have "R \<le> 18014398509481984" using False by simp
  then have "rnd_mag R \<le> 18014398509481984"
    using rnd_mag_mono[OF assms(2)] rnd_mag_two_54 by fastforce
  then show ?thesis by (simp add: overflow_threshold_def)
qed

lemma py_round_total:
  assumes "valid x"
  shows "py_round x n \<noteq> None"
proof (cases "\<not> is_finite x \<or> 323 < n")
  case True
  then show ?thesis by (auto simp: py_round_def)
next
  case False
  define R :: rat where "R = of_int (round_half_even (\<bar>fval x\<bar> * 10 ^ n)) / 10 ^ n"
  have d: "is_double (fval x)" using assms by (cases x) (simp_all add: is_double_def)
  have R0: "0 \<le> R" unfolding R_def by (simp add: rhe_nonneg)
  have "\<not> is_inf (rnd_signed (is_neg x) R)"
  proof (cases "R = 0")
    case True
    then show ?thesis by (simp add: rnd_signed_def overflow_threshold_def)
  next
    case False
    with R0 have "0 < R" by simp
    then have "rnd_mag R < overflow_threshold"
      using round_decimal_bounded[OF d _ R_def] by simp
    then show ?thesis using \<open>0 < R\<close> by (simp add: rnd_signed_Fin)
  qed
  then show ?thesis using False by (simp add: py_round_def Let_def R_def)
qed

subsection \<open>Rounding gives binary64 numbers\<close>

lemma scaled_integer:
  assumes "k \<le> u"
  shows "(of_int \<lfloor>(of_int m * 2 powi u) / 2 powi k :: rat\<rfloor> :: rat) = (of_int m * 2 powi u) / 2 powi k"
proof -
  have "(of_int m * 2 powi u) / 2 powi k = (of_int m :: rat) * 2 powi (u - k)"
    by (simp add: power_int_diff)
  also have "\<dots> = of_int m * 2 ^ nat (u - k)"
    using assms by (simp add: power_int_def)
  also have "\<dots> = of_int (m * 2 ^ nat (u - k))" by simp
  finally have "(of_int m * 2 powi u) / 2 powi k = (of_int (m * 2 ^ nat (u - k)) :: rat)" .
  then show ?thesis by (simp only: floor_of_int)
qed

lemma rnd_mag_double:
  assumes "0 < q" "rnd_mag q < overflow_threshold"
  shows "is_double (rnd_mag q)"
proof (cases "rnd_mag q = 0")
  case True
  then show ?thesis by (simp add: is_double_def)
next
  case False
  define u where "u = ulp_exp q"
  define m where "m = round_half_even (q / 2 powi u)"
  define r where "r = rnd_mag q"
  have r: "r = of_int m * 2 powi u" by (simp add: r_def rnd_mag_def m_def u_def)
  have rpos: "0 < r" using False rnd_mag_nonneg[OF assms(1)] by (simp add: r_def)
  have ulow: "- 1074 \<le> u" by (simp add: u_def ulp_exp_def)
  have up: "r \<le> 2 powi (u + 53)" unfolding r_def u_def by (rule rnd_mag_upper[OF assms(1)])
  have "ulp_exp r \<le> u \<or> (r = 2 powi (u + 53) \<and> ulp_exp r = u + 1)"
  proof (cases "r = 2 powi (u + 53)")
    case True
    have "ilog2 r = u + 53"
      by (rule ilog2_unique[OF rpos]) (simp_all add: True power_int_add)
    moreover have "ulp_exp r = max (ilog2 r - 52) (- 1074)" by (rule ulp_exp_pos[OF rpos])
    ultimately have "ulp_exp r = u + 1" using ulow by simp
    with True show ?thesis by (rule_tac disjI2) (rule conjI)
  next
    case False
    with up have "r < 2 powi (u + 53)" by simp
    then have "(2::rat) powi ilog2 r < 2 powi (u + 53)"
      using ilog2_bounds(1)[OF rpos] by simp
    then have "ilog2 r < u + 53" by (rule powi2_less_imp)
    moreover have "ulp_exp r = max (ilog2 r - 52) (- 1074)" by (rule ulp_exp_pos[OF rpos])
    ultimately have "ulp_exp r \<le> u" using ulow by simp
    then show ?thesis by (rule disjI1)
  qed
  then have "of_int \<lfloor>r / 2 powi ulp_exp r\<rfloor> = r / 2 powi ulp_exp r"
  proof
    assume "ulp_exp r \<le> u"
    then show ?thesis unfolding r by (rule scaled_integer)
  next
    assume a: "r = 2 powi (u + 53) \<and> ulp_exp r = u + 1"
    then have r1: "r = 2 powi (u + 53)" and r2: "ulp_exp r = u + 1" by blast+
    have "r / 2 powi ulp_exp r = r / 2 powi (u + 1)" by (simp only: r2)
    also have "\<dots> = 2 powi (u + 53) / 2 powi (u + 1)" using r1 by simp
    also have "\<dots> = of_int (2 ^ 52)" by (simp add: power_int_add)
    finally have "r / 2 powi ulp_exp r = of_int (2 ^ 52)" .
    then show ?thesis by (simp only: floor_of_int)
  qed
  then show ?thesis
    using assms(2) rpos by (simp add: is_double_def Let_def r_def)
qed

lemma is_double_neg: "is_double (- q) = is_double q"
  by (simp add: is_double_def ulp_exp_def)

lemma is_double_zero: "is_double 0"
  by (simp add: is_double_def)

lemma valid_rnd_signed: "0 \<le> q \<Longrightarrow> valid (rnd_signed neg q)"
proof (cases "q = 0")
  case True
  then show ?thesis using overflow_threshold_pos by (simp add: rnd_signed_def is_double_zero)
next
  case False
  assume "0 \<le> q"
  with False have q: "0 < q" by simp
  show ?thesis
    using rnd_mag_double[OF q]
    by (simp add: rnd_signed_def Let_def is_double_neg is_double_zero)
qed

lemma digit_val_nonneg: "is_digit c \<Longrightarrow> 0 \<le> digit_val c"
  by (auto simp: is_digit_def digit_val_def code_def)

lemma digits_fold_nonneg:
  "0 \<le> a \<Longrightarrow> list_all is_digit ds \<Longrightarrow> 0 \<le> foldl (\<lambda>a c. 10 * a + digit_val c) a ds"
  by (induction ds arbitrary: a) (simp_all add: digit_val_nonneg)

lemma digits_val_nonneg: "list_all is_digit ds \<Longrightarrow> 0 \<le> digits_val ds"
  by (simp add: digits_val_def digits_fold_nonneg)

lemma takeWhile_digits: "list_all is_digit (takeWhile is_digit s)"
  by (induction s) simp_all

lemma parse_number_nonneg: "parse_number s = Some me \<Longrightarrow> 0 \<le> fst me"
  by (auto simp: parse_number_def Let_def takeWhile_digits intro!: digits_val_nonneg
      split: if_splits option.splits list.splits)

lemma valid_py_float: "py_float s = Some x \<Longrightarrow> valid x"
proof -
  assume a: "py_float s = Some x"
  have "valid (rnd_signed neg (of_int (fst me) * 10 powi (snd me)))"
    if "parse_number b = Some me" for neg b me
    using parse_number_nonneg[OF that] by (intro valid_rnd_signed) simp
  then show ?thesis
    using a by (auto simp: py_float_def Let_def split: if_splits option.splits)
qed

text \<open>Every odds value that ingestion produces is a well-formed float.\<close>

lemma ingest_valid: "\<forall>b \<in> set (fetch_matchbet_data raw). valid (bet_odds b)"
proof (cases raw)
  case None
  then show ?thesis by (simp add: fetch_matchbet_data_def)
next
  case (Some rs)
  have "valid (bet_odds (row_record r))" if "row_accepted r" for r
    using that valid_py_float[of "odds_text r"]
    by (auto simp: row_accepted_def row_record_def bet_odds_def)
  then show ?thesis
    by (simp add: Some fetch_matchbet_data_def ingest_eq)
qed

section \<open>Properties of the aggregation\<close>

lemma aggregate_snoc: "aggregate (bs @ [b]) = agg_step (aggregate bs) b"
  by (simp add: aggregate_def)

lemma map_fst_map_entry: "map fst (AList.map_entry k f xs) = map fst xs"
  by (induction xs) auto

lemma agg_step_keys:
  "map fst (agg_step agg b) =
     (if map_of agg (bet_sport b) = None then map fst agg @ [bet_sport b] else map fst agg)"
  by (simp add: agg_step_def Let_def map_fst_map_entry split: option.splits)

lemma map_of_None_iff: "map_of xs k = None \<longleftrightarrow> k \<notin> set (map fst xs)"
  by (simp add: map_of_eq_None_iff)

lemma aggregate_keys:
  "distinct (map fst (aggregate bets)) \<and> set (map fst (aggregate bets)) = bet_sport ` set bets"
proof (induction bets rule: rev_induct)
  case Nil
  then show ?case by (simp add: aggregate_def)
next
  case (snoc b bs)
  then show ?case
    by (auto simp: aggregate_snoc agg_step_keys map_of_None_iff)
qed

lemma agg_step_map_of:
  "map_of (agg_step agg b) s =
     (if s = bet_sport b
      then Some (sport_step s (case map_of agg s of None \<Rightarrow> [] | Some m \<Rightarrow> m) b)
      else map_of agg s)"
  by (auto simp: agg_step_def Let_def sport_step_def map_of_map_entry map_add_def
      split: option.splits)

lemma sport_buckets_snoc: "sport_buckets s (bs @ [b]) = sport_step s (sport_buckets s bs) b"
  by (simp add: sport_buckets_def)

lemma sport_step_other: "bet_sport b \<noteq> s \<Longrightarrow> sport_step s m b = m"
  by (simp add: sport_step_def)

lemma sport_buckets_Nil: "s \<notin> bet_sport ` set bs \<Longrightarrow> sport_buckets s bs = []"
  by (induction bs rule: rev_induct) (auto simp: sport_buckets_snoc sport_step_other sport_buckets_def)

lemma map_of_aggregate:
  "map_of (aggregate bets) s =
     (if s \<in> bet_sport ` set bets then Some (sport_buckets s bets) else None)"
proof (induction bets rule: rev_induct)
  case Nil
  then show ?case by (simp add: aggregate_def)
next
  case (snoc b bs)
  show ?case
  proof (cases "s = bet_sport b")
    case True
    then show ?thesis
      using snoc by (auto simp: aggregate_snoc agg_step_map_of sport_buckets_snoc sport_buckets_Nil)
  next
    case False
    then show ?thesis
      using snoc by (auto simp: aggregate_snoc agg_step_map_of sport_buckets_snoc sport_step_other)
  qed
qed

lemma aggregate_entry:
  "(s, m) \<in> set (aggregate bets) \<longleftrightarrow> s \<in> bet_sport ` set bets \<and> m = sport_buckets s bets"
proof -
  have "(s, m) \<in> set (aggregate bets) \<longleftrightarrow> map_of (aggregate bets) s = Some m"
    using aggregate_keys[of bets] by (simp add: map_of_eq_Some_iff)
  then show ?thesis by (auto simp: map_of_aggregate)
qed




subsection \<open>Counters of one sport\<close>

lemma float_dict_update_total:
  "sum_list (map (\<lambda>e. lt (snd e) + pt (snd e)) (float_dict_update k (count_bet l w) zero_stats m))
     = Suc (sum_list (map (\<lambda>e. lt (snd e) + pt (snd e)) m))"
  by (induction m) (auto simp: count_bet_def zero_stats_def)

lemma sport_buckets_total:
  assumes "\<forall>b \<in> set bets. round_odds_key (bet_odds b) \<noteq> None"
  shows "sum_list (map (\<lambda>e. lt (snd e) + pt (snd e)) (sport_buckets s bets))
           = length (filter (\<lambda>b. bet_sport b = s) bets)"
  using assms
proof (induction bets rule: rev_induct)
  case Nil
  then show ?case by (simp add: sport_buckets_def)
next
  case (snoc b bs)
  then show ?case
    by (auto simp: sport_buckets_snoc sport_step_def float_dict_update_total)
qed

lemma float_dict_update_set:
  "e \<in> set (float_dict_update k f z m) \<Longrightarrow>
     e = (k, f z) \<or> e \<in> set m \<or> (\<exists>e' \<in> set m. e = (fst e', f (snd e')))"
  by (induction m) (auto split: if_splits)

lemma count_bet_wins:
  "lw st \<le> lt st \<and> pw st \<le> pt st \<Longrightarrow>
     lw (count_bet l w st) \<le> lt (count_bet l w st) \<and> pw (count_bet l w st) \<le> pt (count_bet l w st)"
  by (simp add: count_bet_def)

lemma float_dict_update_pred:
  "\<forall>e \<in> set m. P (snd e) \<Longrightarrow> P (f z) \<Longrightarrow> (\<And>st. P st \<Longrightarrow> P (f st)) \<Longrightarrow>
     \<forall>e \<in> set (float_dict_update k f z m). P (snd e)"
  by (induction m) auto

lemma sport_buckets_wins:
  "\<forall>e \<in> set (sport_buckets s bets). lw (snd e) \<le> lt (snd e) \<and> pw (snd e) \<le> pt (snd e)"
proof (induction bets rule: rev_induct)
  case Nil
  then show ?case by (simp add: sport_buckets_def)
next
  case (snoc b bs)
  have "\<forall>e \<in> set (float_dict_update k (count_bet l w) zero_stats (sport_buckets s bs)).
          lw (snd e) \<le> lt (snd e) \<and> pw (snd e) \<le> pt (snd e)" for k l w
    by (rule float_dict_update_pred[OF snoc]) (simp_all add: count_bet_def zero_stats_def)
  then show ?case
    using snoc by (simp add: sport_buckets_snoc sport_step_def split: option.splits)
qed

subsection \<open>Sorting\<close>

lemma sorted_by_key_Cons: "sorted_by_key (x # xs) = insert_by_key x (sorted_by_key xs)"
  by (simp add: sorted_by_key_def)

lemma sorted_by_key_Nil: "sorted_by_key [] = []"
  by (simp add: sorted_by_key_def)

lemma set_insert_by_key: "set (insert_by_key x ys) = insert x (set ys)"
  by (induction ys) auto

lemma set_sorted_by_key: "set (sorted_by_key xs) = set xs"
  by (induction xs) (simp_all add: sorted_by_key_Cons sorted_by_key_Nil set_insert_by_key)

lemma sum_insert_by_key: "sum_list (map f (insert_by_key x ys)) = f x + sum_list (map f ys)"
  for f :: "pyfloat \<times> 'v \<Rightarrow> nat"
  by (induction ys) auto

lemma sum_sorted_by_key: "sum_list (map f (sorted_by_key xs)) = sum_list (map f xs)"
  for f :: "pyfloat \<times> 'v \<Rightarrow> nat"
  by (induction xs) (simp_all add: sorted_by_key_Cons sorted_by_key_Nil sum_insert_by_key)

lemma feq_sym: "feq a b = feq b a"
  by (cases a; cases b) auto

lemma apart_insert_by_key:
  "sorted_wrt (\<lambda>a b. \<not> feq (fst a) (fst b)) (x # ys) \<Longrightarrow>
     sorted_wrt (\<lambda>a b. \<not> feq (fst a) (fst b)) (insert_by_key x ys)"
proof (induction ys)
  case Nil
  then show ?case by simp
next
  case (Cons y ys)
  then show ?case
    by (auto simp: set_insert_by_key feq_sym[of "fst y" "fst x"])
qed

lemma apart_sorted_by_key:
  "sorted_wrt (\<lambda>a b. \<not> feq (fst a) (fst b)) xs \<Longrightarrow>
     sorted_wrt (\<lambda>a b. \<not> feq (fst a) (fst b)) (sorted_by_key xs)"
proof (induction xs)
  case Nil
  then show ?case by (simp add: sorted_by_key_Nil)
next
  case (Cons x xs)
  then have "sorted_wrt (\<lambda>a b. \<not> feq (fst a) (fst b)) (x # sorted_by_key xs)"
    by (simp add: set_sorted_by_key)
  then show ?case
    unfolding sorted_by_key_Cons by (rule apart_insert_by_key)
qed

lemma flt_asym: "flt a b \<Longrightarrow> \<not> flt b a"
  by (cases a; cases b) auto







subsection \<open>Keys of one sport\<close>

lemma float_dict_update_keys:
  "map fst (float_dict_update k f z m) =
     (if \<exists>e \<in> set m. feq (fst e) k then map fst m else map fst m @ [k])"
  by (induction m) auto

lemma apart_float_dict_update:
  assumes "sorted_wrt (\<lambda>a b. \<not> feq a b) (map fst m)"
  shows "sorted_wrt (\<lambda>a b. \<not> feq a b) (map fst (float_dict_update k f z m))"
  using assms by (auto simp: float_dict_update_keys sorted_wrt_append)

lemma sport_buckets_apart: "sorted_wrt (\<lambda>a b. \<not> feq a b) (map fst (sport_buckets s bets))"
proof (induction bets rule: rev_induct)
  case Nil
  then show ?case by (simp add: sport_buckets_def)
next
  case (snoc b bs)
  then show ?case
    by (auto simp: sport_buckets_snoc sport_step_def apart_float_dict_update split: option.splits)
qed




subsection \<open>Rows and index\<close>

lemma float_dict_set_fresh:
  "\<forall>e \<in> set d. \<not> feq (fst e) k \<Longrightarrow> float_dict_set k v d = d @ [(k, v)]"
  by (induction d) auto

lemma index_fold:
  "sorted_wrt (\<lambda>a b. \<not> feq (fst a) (fst b)) es \<Longrightarrow>
     foldl (\<lambda>idx e. float_dict_set (fst e) (g (snd e)) idx) [] es = map (\<lambda>e. (fst e, g (snd e))) es"
proof (induction es rule: rev_induct)
  case Nil
  then show ?case by simp
next
  case (snoc x xs)
  then show ?case
    by (auto simp: sorted_wrt_append float_dict_set_fresh)
qed

lemma sorted_wrt_map_fst:
  "sorted_wrt (\<lambda>a b. P (fst a) (fst b)) xs = sorted_wrt P (map fst xs)"
  by (simp add: sorted_wrt_map)

lemma build_entry_index:
  assumes "sorted_wrt (\<lambda>a b. \<not> feq a b) (map fst m)"
  shows "index (build_entry m) = rows (build_entry m)"
proof -
  have "sorted_wrt (\<lambda>a b. \<not> feq (fst a) (fst b)) m"
    using assms by (simp add: sorted_wrt_map)
  then have "sorted_wrt (\<lambda>a b. \<not> feq (fst a) (fst b)) (sorted_by_key m)"
    by (rule apart_sorted_by_key)
  then show ?thesis
    by (simp add: build_entry_def Let_def index_fold)
qed

lemma process_entry:
  "(s, e) \<in> set (process_bets_to_cache bets)
     \<longleftrightarrow> s \<in> bet_sport ` set bets \<and> e = build_entry (sport_buckets s bets)"
proof -
  have "(s, e) \<in> set (process_bets_to_cache bets)
          \<longleftrightarrow> (\<exists>m. (s, m) \<in> set (aggregate bets) \<and> e = build_entry m)"
    unfolding process_bets_to_cache_def by force
  then show ?thesis
    unfolding aggregate_entry by blast
qed

lemma process_keys: "map fst (process_bets_to_cache bets) = map fst (aggregate bets)"
  by (simp add: process_bets_to_cache_def comp_def)

lemma rates_of_count: "row_count (k, rates_of st) = lt st + pt st"
  by (simp add: row_count_def rates_of_def Let_def count_or_zero_def)

lemma build_entry_rows:
  "rows (build_entry m) = map (\<lambda>e. (fst e, rates_of (snd e))) (sorted_by_key m)"
  by (simp add: build_entry_def Let_def)

lemma build_entry_count:
  "sum_list (map row_count (rows (build_entry m))) = sum_list (map (\<lambda>e. lt (snd e) + pt (snd e)) m)"
proof -
  have "map row_count (rows (build_entry m)) = map (\<lambda>e. lt (snd e) + pt (snd e)) (sorted_by_key m)"
    by (simp add: build_entry_rows comp_def rates_of_count)
  then show ?thesis by (simp add: sum_sorted_by_key)
qed

lemma round_odds_key_total: "valid x \<Longrightarrow> round_odds_key x \<noteq> None"
  by (simp add: round_odds_key_def py_round_total)

lemma valid_two: "valid (Fin 2)"
  by code_simp

lemma valid_three: "valid (Fin 3)"
  by code_simp

text \<open>
  C10: \<open>process_bets_to_cache\<close> conserves records.  The sports of the cache are the sports
  of the input, each once.  When every odds value is a float (a binary64 number, an
  infinity or not-a-number), rounding never fails, no record is dropped, and for each
  sport the live and prematch counts of its rows add up to the number of input records of
  that sport.
\<close>

theorem aggregation_conserves_records:
  "set (map fst (process_bets_to_cache bets)) = bet_sport ` set bets
   \<and> distinct (map fst (process_bets_to_cache bets))
   \<and> ((\<forall>b \<in> set bets. valid (bet_odds b)) \<longrightarrow>
        (\<forall>b \<in> set bets. round_odds_key (bet_odds b) \<noteq> None)
        \<and> (\<forall>se \<in> set (process_bets_to_cache bets).
              sum_list (map row_count (rows (snd se)))
                = length (filter (\<lambda>b. bet_sport b = fst se) bets)))"
proof -
  have "sum_list (map row_count (rows (snd se))) = length (filter (\<lambda>b. bet_sport b = fst se) bets)"
    if v: "\<forall>b \<in> set bets. valid (bet_odds b)" and se: "se \<in> set (process_bets_to_cache bets)" for se
  proof -
    have r: "\<forall>b \<in> set bets. round_odds_key (bet_odds b) \<noteq> None"
      using v by (simp add: round_odds_key_total)
    have "(fst se, snd se) \<in> set (process_bets_to_cache bets)" using se by simp
    then have "snd se = build_entry (sport_buckets (fst se) bets)"
      by (simp only: process_entry)
    then show ?thesis
      by (simp add: build_entry_count sport_buckets_total[OF r])
  qed
  then show ?thesis
    using aggregate_keys[of bets] by (simp add: process_keys round_odds_key_total)
qed

lemma process_three:
  "process_bets_to_cache
     [(''CS2'', [], [], [], ''Live'', Fin 2, ''Win''),
      (''Dota'', [], [], [], ''Not Live'', Fin 3, ''Loss''),
      (''CS2'', [], [], [], ''Not Live'', Fin 2, ''Loss'')]
   = [(''CS2'', \<lparr>rows = [(Fin 2, Some (Fin 1), Some (Fin 0), Some 1, Some 1)],
                 index = [(Fin 2, Some (Fin 1), Some (Fin 0), Some 1, Some 1)]\<rparr>),
      (''Dota'', \<lparr>rows = [(Fin 3, None, Some (Fin 0), None, Some 1)],
                  index = [(Fin 3, None, Some (Fin 0), None, Some 1)]\<rparr>)]"
  by code_simp

theorem aggregation_conserves_records_witness:
  "valid (Fin 2) \<and> valid (Fin 3)
   \<and> round_odds_key (Fin 2) \<noteq> None
   \<and> sum_list (map row_count [(Fin 2, Some (Fin 1), Some (Fin 0), Some 1, Some 1)]) = 2"
  using aggregation_conserves_records
          [of "[(''CS2'', [], [], [], ''Live'', Fin 2, ''Win''),
                (''Dota'', [], [], [], ''Not Live'', Fin 3, ''Loss''),
                (''CS2'', [], [], [], ''Not Live'', Fin 2, ''Loss'')]"]
  by (simp add: process_three valid_two valid_three bet_odds_def bet_sport_def del: valid.simps)

lemma rates_of_props:
  assumes "lw st \<le> lt st" "pw st \<le> pt st" "rates_of st = (lwr, pwr, lc, pc)"
  shows "(lwr = None \<longleftrightarrow> lt st = 0) \<and> (lc = None \<longleftrightarrow> lt st = 0)
       \<and> (0 < lt st \<longrightarrow> lwr = Some (truediv (lw st) (lt st)) \<and> lc = Some (lt st)
             \<and> (\<exists>q. truediv (lw st) (lt st) = Fin q \<and> 0 \<le> q \<and> q \<le> 1))
       \<and> (pwr = None \<longleftrightarrow> pt st = 0) \<and> (pc = None \<longleftrightarrow> pt st = 0)
       \<and> (0 < pt st \<longrightarrow> pwr = Some (truediv (pw st) (pt st)) \<and> pc = Some (pt st)
             \<and> (\<exists>q. truediv (pw st) (pt st) = Fin q \<and> 0 \<le> q \<and> q \<le> 1))"
  using assms(3) truediv_unit[OF assms(1)] truediv_unit[OF assms(2)]
  by (auto simp: rates_of_def Let_def split: if_splits)

text \<open>
  C3: every tuple of the cache, in the rows and in the index, comes from a bucket of
  counters of its sport and key with \<open>lw \<le> lt\<close> and \<open>pw \<le> pt\<close>.  Its live win-rate is absent
  exactly when the live total is 0, and so is its live count (absent, not 0); otherwise the
  win-rate is \<open>lw / lt\<close>, a number between 0 and 1, and the count is \<open>lt\<close>.  The same
  holds for the prematch win-rate and count.
\<close>

theorem win_rate_absent_iff_no_bets:
  assumes "(s, e) \<in> set (process_bets_to_cache bets)"
    and "(k, lwr, pwr, lc, pc) \<in> set (rows e) \<union> set (index e)"
  shows "\<exists>m st. (s, m) \<in> set (aggregate bets) \<and> (k, st) \<in> set m
           \<and> lw st \<le> lt st \<and> pw st \<le> pt st
           \<and> (lwr = None \<longleftrightarrow> lt st = 0) \<and> (lc = None \<longleftrightarrow> lt st = 0)
           \<and> (0 < lt st \<longrightarrow> lwr = Some (truediv (lw st) (lt st)) \<and> lc = Some (lt st)
                 \<and> (\<exists>q. truediv (lw st) (lt st) = Fin q \<and> 0 \<le> q \<and> q \<le> 1))
           \<and> (pwr = None \<longleftrightarrow> pt st = 0) \<and> (pc = None \<longleftrightarrow> pt st = 0)
           \<and> (0 < pt st \<longrightarrow> pwr = Some (truediv (pw st) (pt st)) \<and> pc = Some (pt st)
                 \<and> (\<exists>q. truediv (pw st) (pt st) = Fin q \<and> 0 \<le> q \<and> q \<le> 1))"
proof -
  let ?m = "sport_buckets s bets"
  have s: "s \<in> bet_sport ` set bets" and e: "e = build_entry ?m"
    using assms(1) by (simp_all only: process_entry)
  have "index e = rows e"
    unfolding e by (rule build_entry_index) (rule sport_buckets_apart)
  then have "(k, lwr, pwr, lc, pc) \<in> set (rows e)" using assms(2) by simp
  then obtain st where st: "(k, st) \<in> set ?m" "rates_of st = (lwr, pwr, lc, pc)"
    unfolding e build_entry_rows by (auto simp: set_sorted_by_key)
  have w: "lw st \<le> lt st" "pw st \<le> pt st"
    using sport_buckets_wins[of s bets] st(1) by auto
  have "(s, ?m) \<in> set (aggregate bets)" using s by (simp add: aggregate_entry)
  then show ?thesis
    apply (intro exI[of _ ?m] exI[of _ st])
    using st(1) w rates_of_props[OF w st(2)] by simp
qed

theorem win_rate_absent_iff_no_bets_witness:
  "\<exists>m st. (''CS2'', m) \<in> set (aggregate
              [(''CS2'', [], [], [], ''Live'', Fin 2, ''Win''),
               (''Dota'', [], [], [], ''Not Live'', Fin 3, ''Loss''),
               (''CS2'', [], [], [], ''Not Live'', Fin 2, ''Loss'')])
      \<and> (Fin 2, st) \<in> set m \<and> lt st = 1 \<and> pt st = 1
      \<and> truediv (lw st) (lt st) = Fin 1 \<and> truediv (pw st) (pt st) = Fin 0"
proof -
  let ?bets = "[(''CS2'', [], [], [], ''Live'', Fin 2, ''Win''),
                (''Dota'', [], [], [], ''Not Live'', Fin 3, ''Loss''),
                (''CS2'', [], [], [], ''Not Live'', Fin 2, ''Loss'')]"
  let ?e = "\<lparr>rows = [(Fin 2, Some (Fin 1), Some (Fin 0), Some 1, Some 1)],
             index = [(Fin 2, Some (Fin 1), Some (Fin 0), Some 1, Some 1)]\<rparr>"
  have m1: "(''CS2'', ?e) \<in> set (process_bets_to_cache ?bets)"
    by (simp only: process_three) simp
  have m2: "(Fin 2, Some (Fin 1), Some (Fin 0), Some 1, Some 1) \<in> set (rows ?e) \<union> set (index ?e)"
    by simp
  from win_rate_absent_iff_no_bets[OF m1 m2] show ?thesis
    apply (elim exE)
    subgoal for m st
      by (intro exI[of _ m] exI[of _ st]) auto
    done
qed








section \<open>Properties of the statistics view\<close>

lemma tournament_stats_snoc: "tournament_stats (bs @ [b]) = stats_step (tournament_stats bs) b"
  by (simp add: tournament_stats_def)


lemma stats_step_skip: "\<not> in_view b \<Longrightarrow> stats_step stats b = stats"
  by (auto simp: stats_step_def in_view_def Let_def)

lemma stats_step_keys:
  "map fst (stats_step stats b) =
     (if in_view b \<and> map_of stats (view_sport b) = None then map fst stats @ [view_sport b]
      else map fst stats)"
  by (auto simp: stats_step_def in_view_def view_sport_def Let_def map_fst_map_entry)

lemma stats_step_map_of:
  "in_view b \<Longrightarrow>
   map_of (stats_step stats b) s =
     (if view_sport b = s
      then Some (count_tournament (normalize_tournament_name (bet_tournament b)) (bet_result b)
                   (case map_of stats s of None \<Rightarrow> [] | Some ts \<Rightarrow> ts))
      else map_of stats s)"
  by (auto simp: stats_step_def in_view_def view_sport_def Let_def map_of_map_entry map_add_def
      split: option.splits)

lemma sport_bets_snoc:
  "sport_bets s (bs @ [b]) = sport_bets s bs @ (if in_view b \<and> view_sport b = s then [b] else [])"
  by (simp add: sport_bets_def)

lemma sport_tourneys_empty: "sport_bets s bs = [] \<Longrightarrow> sport_tourneys s bs = []"
  by (simp add: sport_tourneys_def)

lemma sport_tourneys_snoc:
  "sport_tourneys s (bs @ [b]) =
     (if in_view b \<and> view_sport b = s
      then count_tournament (normalize_tournament_name (bet_tournament b)) (bet_result b)
             (sport_tourneys s bs)
      else sport_tourneys s bs)"
  by (simp add: sport_tourneys_def sport_bets_snoc)

lemma map_of_tournament_stats:
  "map_of (tournament_stats bets) s =
     (if sport_bets s bets = [] then None else Some (sport_tourneys s bets))"
proof (induction bets rule: rev_induct)
  case Nil
  then show ?case by (simp add: tournament_stats_def sport_bets_def)
next
  case (snoc b bs)
  show ?case
  proof (cases "in_view b")
    case False
    then show ?thesis
      using snoc by (simp add: tournament_stats_snoc stats_step_skip sport_bets_snoc sport_tourneys_snoc)
  next
    case True
    then show ?thesis
      using snoc
      by (auto simp: tournament_stats_snoc stats_step_map_of sport_bets_snoc sport_tourneys_snoc
          sport_tourneys_empty)
  qed
qed

lemma tournament_stats_distinct: "distinct (map fst (tournament_stats bets))"
proof (induction bets rule: rev_induct)
  case Nil
  then show ?case by (simp add: tournament_stats_def)
next
  case (snoc b bs)
  then show ?case
    by (auto simp: tournament_stats_snoc stats_step_keys map_of_eq_None_iff)
qed

lemma tournament_stats_entry:
  "(s, ts) \<in> set (tournament_stats bets) \<longleftrightarrow> sport_bets s bets \<noteq> [] \<and> ts = sport_tourneys s bets"
proof -
  have "(s, ts) \<in> set (tournament_stats bets) \<longleftrightarrow> map_of (tournament_stats bets) s = Some ts"
    using tournament_stats_distinct[of bets] by (simp add: map_of_eq_Some_iff)
  then show ?thesis by (auto simp: map_of_tournament_stats)
qed

subsection \<open>The tournaments of one sport\<close>

lemma count_tournament_keys:
  "map fst (count_tournament n r ts) = (if map_of ts n = None then map fst ts @ [n] else map fst ts)"
  by (simp add: count_tournament_def map_fst_map_entry)

lemma count_tournament_map_of:
  "map_of (count_tournament n r ts) t =
     (if t = n then Some (count_result r (case map_of ts n of None \<Rightarrow> \<lparr>wins = 0, total = 0\<rparr> | Some v \<Rightarrow> v))
      else map_of ts t)"
  by (auto simp: count_tournament_def map_of_map_entry map_add_def split: option.splits)

lemma sport_tourneys_distinct: "distinct (map fst (sport_tourneys s bets))"
proof (induction bets rule: rev_induct)
  case Nil
  then show ?case by (simp add: sport_tourneys_def sport_bets_def)
next
  case (snoc b bs)
  then show ?case
    by (auto simp: sport_tourneys_snoc count_tournament_keys map_of_eq_None_iff)
qed

lemma view_bets_snoc:
  "view_bets s t (bs @ [b]) =
     view_bets s t bs
     @ (if in_view b \<and> view_sport b = s \<and> normalize_tournament_name (bet_tournament b) = t
        then [b] else [])"
  by (simp add: view_bets_def sport_bets_snoc)

lemma sport_tourneys_map_of:
  "map_of (sport_tourneys s bets) t =
     (if view_bets s t bets = [] then None
      else Some \<lparr>wins = length (filter won (view_bets s t bets)),
                 total = length (view_bets s t bets)\<rparr>)"
proof (induction bets rule: rev_induct)
  case Nil
  then show ?case by (simp add: sport_tourneys_def sport_bets_def view_bets_def)
next
  case (snoc b bs)
  then show ?case
    by (auto simp: sport_tourneys_snoc count_tournament_map_of view_bets_snoc count_result_def won_def[symmetric])
qed

lemma map_entry_total:
  "map_of ts n \<noteq> None \<Longrightarrow>
     sum_list (map (\<lambda>t. total (snd t)) (AList.map_entry n (count_result r) ts))
       = Suc (sum_list (map (\<lambda>t. total (snd t)) ts))"
  by (induction ts) (auto simp: count_result_def)

lemma count_tournament_total:
  "sum_list (map (\<lambda>t. total (snd t)) (count_tournament n r ts))
     = Suc (sum_list (map (\<lambda>t. total (snd t)) ts))"
  by (simp add: count_tournament_def map_entry_total count_result_def)

lemma sport_tourneys_total:
  "sum_list (map (\<lambda>t. total (snd t)) (sport_tourneys s bets)) = length (sport_bets s bets)"
proof (induction bets rule: rev_induct)
  case Nil
  then show ?case by (simp add: sport_tourneys_def sport_bets_def)
next
  case (snoc b bs)
  then show ?case
    by (simp add: sport_tourneys_snoc sport_bets_snoc count_tournament_total)
qed

lemma map_entry_wins:
  "map_of ts n \<noteq> None \<Longrightarrow>
     sum_list (map (\<lambda>t. wins (snd t)) (AList.map_entry n (count_result r) ts))
       = (if lower r = ''win'' then 1 else 0) + sum_list (map (\<lambda>t. wins (snd t)) ts)"
  by (induction ts) (auto simp: count_result_def)

lemma count_tournament_wins:
  "sum_list (map (\<lambda>t. wins (snd t)) (count_tournament n r ts))
     = (if lower r = ''win'' then 1 else 0) + sum_list (map (\<lambda>t. wins (snd t)) ts)"
  by (simp add: count_tournament_def map_entry_wins count_result_def)

lemma sport_tourneys_wins:
  "sum_list (map (\<lambda>t. wins (snd t)) (sport_tourneys s bets)) = length (filter won (sport_bets s bets))"
proof (induction bets rule: rev_induct)
  case Nil
  then show ?case by (simp add: sport_tourneys_def sport_bets_def)
next
  case (snoc b bs)
  then show ?case
    by (simp add: sport_tourneys_snoc sport_bets_snoc count_tournament_wins won_def[symmetric])
qed




subsection \<open>Sorting by descending count\<close>

lemma sorted_desc_set: "set (sorted_desc k xs) = set xs"
  by (simp add: sorted_desc_def)

lemma sorted_desc_sorted: "sorted_wrt (\<lambda>a b. k b \<le> k a) (sorted_desc k xs)"
proof -
  have "sorted (map (\<lambda>x. - int (k x)) (sorted_desc k xs))"
    unfolding sorted_desc_def by (rule sorted_sort_key)
  then show ?thesis by (simp add: sorted_map)
qed

lemma sorted_desc_distinct:
  assumes "distinct (map fst xs)"
  shows "distinct (map fst (sorted_desc k xs))"
  using assms by (simp add: distinct_map sorted_desc_def)

lemma sorted_desc_map_of:
  assumes "distinct (map fst xs)"
  shows "map_of (sorted_desc k xs) = map_of xs"
  using assms sorted_desc_distinct[OF assms, of k]
  by (simp add: map_of_inject_set sorted_desc_set)

lemma sport_total_tourneys:
  "sport_total (sport_tourneys s bets)
     = \<lparr>wins = length (filter won (sport_bets s bets)), total = length (sport_bets s bets)\<rparr>"
  by (simp add: sport_total_def sport_tourneys_total sport_tourneys_wins)

lemma stat_lookup_eq:
  "stat_lookup (tournament_stats bets) s t =
     (if view_bets s t bets = [] then None
      else Some \<lparr>wins = length (filter won (view_bets s t bets)),
                 total = length (view_bets s t bets)\<rparr>)"
  by (simp add: stat_lookup_def map_of_tournament_stats sport_tourneys_map_of view_bets_def)

lemma tournament_stats_keys:
  "set (map fst (tournament_stats bets)) = view_sport ` {b \<in> set bets. in_view b}"
proof (rule set_eqI)
  fix s
  have "s \<in> set (map fst (tournament_stats bets))
          \<longleftrightarrow> (\<exists>ts. (s, ts) \<in> set (tournament_stats bets))"
    by (simp add: image_iff) (metis fst_conv prod.collapse)
  also have "\<dots> \<longleftrightarrow> sport_bets s bets \<noteq> []"
    unfolding tournament_stats_entry by simp
  also have "\<dots> \<longleftrightarrow> (\<exists>b \<in> set bets. in_view b \<and> view_sport b = s)"
    by (simp add: sport_bets_def filter_empty_conv)
  also have "\<dots> \<longleftrightarrow> s \<in> view_sport ` {b \<in> set bets. in_view b}"
    by blast
  finally show "s \<in> set (map fst (tournament_stats bets))
          \<longleftrightarrow> s \<in> view_sport ` {b \<in> set bets. in_view b}" .
qed

lemma statistics_tree_set:
  "set (statistics_tree bets) =
     (\<lambda>st. (fst st, sport_total (snd st), sorted_desc (\<lambda>t. total (snd t)) (snd st)))
       ` set (tournament_stats bets)"
  by (simp add: statistics_tree_def sorted_desc_set)

lemma statistics_tree_node:
  "node \<in> set (statistics_tree bets) \<longleftrightarrow>
     (\<exists>s. sport_bets s bets \<noteq> []
         \<and> node = (s, sport_total (sport_tourneys s bets),
                    sorted_desc (\<lambda>t. total (snd t)) (sport_tourneys s bets)))"
proof
  assume "node \<in> set (statistics_tree bets)"
  then obtain st where st: "st \<in> set (tournament_stats bets)"
    and node: "node = (fst st, sport_total (snd st), sorted_desc (\<lambda>t. total (snd t)) (snd st))"
    unfolding statistics_tree_set by (rule imageE)
  from st have "(fst st, snd st) \<in> set (tournament_stats bets)" by simp
  then have "sport_bets (fst st) bets \<noteq> []" "snd st = sport_tourneys (fst st) bets"
    unfolding tournament_stats_entry by simp_all
  then show "\<exists>s. sport_bets s bets \<noteq> []
         \<and> node = (s, sport_total (sport_tourneys s bets),
                    sorted_desc (\<lambda>t. total (snd t)) (sport_tourneys s bets))"
    using node by (intro exI[of _ "fst st"]) simp
next
  assume "\<exists>s. sport_bets s bets \<noteq> []
         \<and> node = (s, sport_total (sport_tourneys s bets),
                    sorted_desc (\<lambda>t. total (snd t)) (sport_tourneys s bets))"
  then obtain s where s: "sport_bets s bets \<noteq> []"
    and node: "node = (s, sport_total (sport_tourneys s bets),
                       sorted_desc (\<lambda>t. total (snd t)) (sport_tourneys s bets))"
    by (elim exE conjE)
  have "(s, sport_tourneys s bets) \<in> set (tournament_stats bets)"
    using s by (simp add: tournament_stats_entry)
  then show "node \<in> set (statistics_tree bets)"
    unfolding statistics_tree_set node by (rule rev_image_eqI) simp
qed

lemma statistics_tree_keys: "map fst (statistics_tree bets)
    = map fst (sorted_desc (\<lambda>st. total (sport_total (snd st))) (tournament_stats bets))"
  by (simp add: statistics_tree_def comp_def)

lemma statistics_tree_example:
  "statistics_tree
     [(''CStwo'', ''ESL Pro League Season 19'', [], [], [], Fin 2, ''Win''),
      (''CS2'', ''ESL Pro League'', [], [], [], Fin 2, ''Loss''),
      (''Dota'', ''2024'', [], [], [], Fin 2, ''Win''),
      (''Dota'', [], [], [], [], Fin 2, ''Win'')]
   = [(''CS2'', \<lparr>wins = 1, total = 2\<rparr>, [(''ESL Pro League'', \<lparr>wins = 1, total = 2\<rparr>)])]"
  by code_simp

lemma view_bets_example:
  "view_bets ''CS2'' ''ESL Pro League''
     [(''CStwo'', ''ESL Pro League Season 19'', [], [], [], Fin 2, ''Win''),
      (''CS2'', ''ESL Pro League'', [], [], [], Fin 2, ''Loss''),
      (''Dota'', ''2024'', [], [], [], Fin 2, ''Win''),
      (''Dota'', [], [], [], [], Fin 2, ''Win'')]
   = [(''CStwo'', ''ESL Pro League Season 19'', [], [], [], Fin 2, ''Win''),
      (''CS2'', ''ESL Pro League'', [], [], [], Fin 2, ''Loss'')]"
  by code_simp

lemma won_example:
  "filter won [(''CStwo'', ''ESL Pro League Season 19'', [], [], [], Fin 2, ''Win''),
               (''CS2'', ''ESL Pro League'', [], [], [], Fin 2, ''Loss'')]
   = [(''CStwo'', ''ESL Pro League Season 19'', [], [], [], Fin 2, ''Win'')]"
  by code_simp


text \<open>
  C9: in the statistics view the alias \<open>CStwo\<close> to \<open>CS2\<close> is applied before grouping;
  a record with an empty sport, an empty tournament or an empty normalized tournament name
  is left out; the counters of a sport and a normalized tournament are the number of the
  records of the view grouped there and the number of those whose result, in lower case,
  is \<open>win\<close>.  The tree shows every sport of the view once, by descending total, with the
  counters of its records, and under each sport its tournaments, each once and with the
  counters above, by descending total.
\<close>

theorem statistics_view_counts_and_order:
  "(\<forall>s t. stat_lookup (tournament_stats bets) s t =
       (if view_bets s t bets = [] then None
        else Some \<lparr>wins = length (filter won (view_bets s t bets)),
                   total = length (view_bets s t bets)\<rparr>))
   \<and> distinct (map fst (statistics_tree bets))
   \<and> set (map fst (statistics_tree bets)) = view_sport ` {b \<in> set bets. in_view b}
   \<and> sorted_wrt (\<lambda>a b. total (fst (snd b)) \<le> total (fst (snd a))) (statistics_tree bets)
   \<and> (\<forall>node \<in> set (statistics_tree bets).
        fst (snd node) = \<lparr>wins = length (filter won (sport_bets (fst node) bets)),
                           total = length (sport_bets (fst node) bets)\<rparr>
        \<and> distinct (map fst (snd (snd node)))
        \<and> (\<forall>t. map_of (snd (snd node)) t = stat_lookup (tournament_stats bets) (fst node) t)
        \<and> sorted_wrt (\<lambda>a b. total (snd b) \<le> total (snd a)) (snd (snd node)))"
proof -
  have d: "distinct (map fst (statistics_tree bets))"
    unfolding statistics_tree_keys
    by (rule sorted_desc_distinct) (rule tournament_stats_distinct)
  have k: "set (map fst (statistics_tree bets)) = view_sport ` {b \<in> set bets. in_view b}"
    unfolding statistics_tree_keys
    using tournament_stats_keys[of bets] by (simp add: sorted_desc_set)
  have o: "sorted_wrt (\<lambda>a b. total (fst (snd b)) \<le> total (fst (snd a))) (statistics_tree bets)"
    using sorted_desc_sorted[of "\<lambda>st. total (sport_total (snd st))" "tournament_stats bets"]
    by (simp add: statistics_tree_def sorted_wrt_map)
  have n: "fst (snd node) = \<lparr>wins = length (filter won (sport_bets (fst node) bets)),
                              total = length (sport_bets (fst node) bets)\<rparr>
        \<and> distinct (map fst (snd (snd node)))
        \<and> (\<forall>t. map_of (snd (snd node)) t = stat_lookup (tournament_stats bets) (fst node) t)
        \<and> sorted_wrt (\<lambda>a b. total (snd b) \<le> total (snd a)) (snd (snd node))"
    if "node \<in> set (statistics_tree bets)" for node
  proof -
    from that obtain s where s: "sport_bets s bets \<noteq> []"
      and node: "node = (s, sport_total (sport_tourneys s bets),
                         sorted_desc (\<lambda>t. total (snd t)) (sport_tourneys s bets))"
      unfolding statistics_tree_node by blast
    have "map_of (sorted_desc (\<lambda>t. total (snd t)) (sport_tourneys s bets)) t
            = stat_lookup (tournament_stats bets) s t" for t
      using s by (simp add: sorted_desc_map_of sport_tourneys_distinct stat_lookup_def
          map_of_tournament_stats)
    then show ?thesis
      unfolding node
      by (simp add: sport_total_tourneys sorted_desc_distinct sport_tourneys_distinct
          sorted_desc_sorted)
  qed
  from n have n': "\<forall>node \<in> set (statistics_tree bets).
        fst (snd node) = \<lparr>wins = length (filter won (sport_bets (fst node) bets)),
                           total = length (sport_bets (fst node) bets)\<rparr>
        \<and> distinct (map fst (snd (snd node)))
        \<and> (\<forall>t. map_of (snd (snd node)) t = stat_lookup (tournament_stats bets) (fst node) t)
        \<and> sorted_wrt (\<lambda>a b. total (snd b) \<le> total (snd a)) (snd (snd node))"
    by (rule ballI)
  show ?thesis
    by (intro conjI allI) (rule stat_lookup_eq, rule d, rule k, rule o, rule n')
qed

theorem statistics_view_counts_and_order_witness:
  "stat_lookup
     (tournament_stats
        [(''CStwo'', ''ESL Pro League Season 19'', [], [], [], Fin 2, ''Win''),
         (''CS2'', ''ESL Pro League'', [], [], [], Fin 2, ''Loss''),
         (''Dota'', ''2024'', [], [], [], Fin 2, ''Win''),
         (''Dota'', [], [], [], [], Fin 2, ''Win'')])
     ''CS2'' ''ESL Pro League''
   = Some \<lparr>wins = 1, total = 2\<rparr>
   \<and> view_sport ` {b \<in> set [(''CStwo'', ''ESL Pro League Season 19'', [], [], [], Fin 2, ''Win''),
                              (''CS2'', ''ESL Pro League'', [], [], [], Fin 2, ''Loss''),
                              (''Dota'', ''2024'', [], [], [], Fin 2, ''Win''),
                              (''Dota'', [], [], [], [], Fin 2, ''Win'')]. in_view b}
     = {''CS2''}"
proof -
  let ?bets = "[(''CStwo'', ''ESL Pro League Season 19'', [], [], [], Fin 2, ''Win''),
                (''CS2'', ''ESL Pro League'', [], [], [], Fin 2, ''Loss''),
                (''Dota'', ''2024'', [], [], [], Fin 2, ''Win''),
                (''Dota'', [], [], [], [], Fin 2, ''Win'')]"
  note t = statistics_view_counts_and_order[of ?bets]
  from t have "\<forall>s t. stat_lookup (tournament_stats ?bets) s t =
       (if view_bets s t ?bets = [] then None
        else Some \<lparr>wins = length (filter won (view_bets s t ?bets)),
                   total = length (view_bets s t ?bets)\<rparr>)"
    by (rule conjunct1)
  then have "stat_lookup (tournament_stats ?bets) ''CS2'' ''ESL Pro League'' =
       (if view_bets ''CS2'' ''ESL Pro League'' ?bets = [] then None
        else Some \<lparr>wins = length (filter won (view_bets ''CS2'' ''ESL Pro League'' ?bets)),
                   total = length (view_bets ''CS2'' ''ESL Pro League'' ?bets)\<rparr>)"
    by (elim allE)
  then have a: "stat_lookup (tournament_stats ?bets) ''CS2'' ''ESL Pro League''
                  = Some \<lparr>wins = 1, total = 2\<rparr>"
    unfolding view_bets_example won_example by simp
  from t have "set (map fst (statistics_tree ?bets)) = view_sport ` {b \<in> set ?bets. in_view b}"
    by (elim conjE)
  then have b: "view_sport ` {b \<in> set ?bets. in_view b} = {''CS2''}"
    unfolding statistics_tree_example by simp
  from a b show ?thesis by (rule conjI)
qed

section \<open>Properties of the number format\<close>















section \<open>Properties of the comparison\<close>

subsection \<open>Rounding keeps the order\<close>

lemma rnd_signed_zero: "rnd_signed False 0 = Fin 0" "rnd_signed True 0 = NegZero"
  using overflow_threshold_pos by (simp_all add: rnd_signed_def)

lemma rnd_signed_False:
  "0 < q \<Longrightarrow> rnd_signed False q
     = (if overflow_threshold \<le> rnd_mag q then PosInf else Fin (rnd_mag q))"
  by (simp add: rnd_signed_def Let_def)

lemma rnd_signed_True:
  "0 < q \<Longrightarrow> rnd_signed True q
     = (if overflow_threshold \<le> rnd_mag q then NegInf
        else if rnd_mag q = 0 then NegZero else Fin (- rnd_mag q))"
  by (simp add: rnd_signed_def Let_def)

lemma rnd_signed_pos:
  assumes "0 \<le> q"
  shows "rnd_signed False q = PosInf \<or> (\<exists>r. rnd_signed False q = Fin r \<and> 0 \<le> r)"
proof (cases "q = 0")
  case True
  then show ?thesis by (simp add: rnd_signed_zero)
next
  case False
  with assms have "0 < q" by simp
  then show ?thesis using rnd_mag_nonneg[of q] by (simp add: rnd_signed_False)
qed

lemma rnd_signed_neg:
  assumes "0 \<le> q"
  shows "rnd_signed True q = NegInf \<or> rnd_signed True q = NegZero
         \<or> (\<exists>r. rnd_signed True q = Fin r \<and> r < 0)"
proof (cases "q = 0")
  case True
  then show ?thesis by (simp add: rnd_signed_zero)
next
  case False
  with assms have "0 < q" by simp
  then show ?thesis using rnd_mag_nonneg[of q] by (simp add: rnd_signed_True)
qed

lemma rnd_signed_pos_mono:
  assumes "0 \<le> p" "p \<le> q"
  shows "\<not> flt (rnd_signed False q) (rnd_signed False p)"
proof (cases "p = 0")
  case True
  have "0 \<le> q" using assms by simp
  then show ?thesis
    using rnd_signed_pos[of q] by (auto simp: True rnd_signed_zero)
next
  case False
  with assms have p: "0 < p" and q: "0 < q" by simp_all
  have "rnd_mag p \<le> rnd_mag q" using rnd_mag_mono[OF p assms(2)] .
  then show ?thesis
    by (simp add: rnd_signed_False[OF p] rnd_signed_False[OF q])
qed

lemma rnd_signed_neg_mono:
  assumes "0 \<le> p" "p \<le> q"
  shows "\<not> flt (rnd_signed True p) (rnd_signed True q)"
proof (cases "p = 0")
  case True
  have "0 \<le> q" using assms by simp
  then show ?thesis
    using rnd_signed_neg[of q] by (auto simp: True rnd_signed_zero)
next
  case False
  with assms have p: "0 < p" and q: "0 < q" by simp_all
  have "rnd_mag p \<le> rnd_mag q" using rnd_mag_mono[OF p assms(2)] .
  then show ?thesis
    using rnd_mag_nonneg[OF p] rnd_mag_nonneg[OF q]
    by (simp add: rnd_signed_True[OF p] rnd_signed_True[OF q])
qed

lemma rnd_mono:
  assumes "p \<le> q"
  shows "\<not> flt (rnd q) (rnd p)"
proof -
  consider "0 \<le> p" | "q < 0" | "p < 0" "0 \<le> q" using assms by linarith
  then show ?thesis
  proof cases
    case 1
    then show ?thesis
      using rnd_signed_pos_mono[of p q] assms by (simp add: rnd_def)
  next
    case 2
    then show ?thesis
      using rnd_signed_neg_mono[of "- q" "- p"] assms by (simp add: rnd_def)
  next
    case 3
    then show ?thesis
      using rnd_signed_pos[of q] rnd_signed_neg[of "- p"] by (auto simp: rnd_def)
  qed
qed

lemma fsub_one_finite: "is_finite x \<Longrightarrow> fsub x (Fin 1) = rnd (fval x - 1)"
  using overflow_threshold_pos by (cases x) (auto simp: fsub_def rnd_def rnd_signed_def)

lemma flt_never: "flt PosInf y = False" "flt x NegInf = False" "flt x NaN = False"
  by (cases y; simp) (cases x; simp)+

lemma flt_finite: "is_finite a \<Longrightarrow> is_finite b \<Longrightarrow> flt b a = (fval b < fval a)"
  by (cases a; cases b) auto

lemma fsub_one_order:
  assumes "flt (fsub b (Fin 1)) (fsub a (Fin 1))"
  shows "flt b a"
proof (cases "is_finite a \<and> is_finite b")
  case True
  then have "flt (rnd (fval b - 1)) (rnd (fval a - 1))"
    using assms by (simp add: fsub_one_finite)
  then have "\<not> fval a - 1 \<le> fval b - 1" using rnd_mono by blast
  then show ?thesis using True by (simp add: flt_finite)
next
  case False
  then show ?thesis
    using assms by (cases a; cases b) (auto simp: fsub_def flt_never)
qed

lemma compare_scores_tiny:
  "compare_scores (Fin (1 / 1152921504606846976)) (Fin (1 / 576460752303423488)) (Fin 1) (Fin 1)
     = B_better"
  by code_simp

lemma ev_tiny_a: "fsub (fmul (Fin 1) (Fin (1 / 1152921504606846976))) (Fin 1) = Fin (- 1)"
  by code_simp

lemma ev_tiny_b: "fsub (fmul (Fin 1) (Fin (1 / 576460752303423488))) (Fin 1) = Fin (- 1)"
  by code_simp

lemma valid_tiny: "valid (Fin (1 / 1152921504606846976)) \<and> valid (Fin (1 / 576460752303423488))"
  by code_simp

text \<open>
  C6, as stated, fails: the expected values are rounded after the subtraction, so two
  different scores can have the same expected value.  With both win-rates 1.0 and the odds
  \<open>2^-60\<close> and \<open>2^-59\<close>, side B has the larger score and is declared better, while both
  expected values are \<open>-1.0\<close>.
\<close>

theorem better_side_with_equal_ev:
  "compare_scores (Fin (1 / 1152921504606846976)) (Fin (1 / 576460752303423488)) (Fin 1) (Fin 1)
     = B_better
   \<and> \<not> fgt (fsub (fmul (Fin 1) (Fin (1 / 576460752303423488))) (Fin 1))
            (fsub (fmul (Fin 1) (Fin (1 / 1152921504606846976))) (Fin 1))"
  by (simp add: compare_scores_tiny ev_tiny_a ev_tiny_b fgt_def)

lemma fgt_asym: "fgt a b \<Longrightarrow> \<not> fgt b a"
  unfolding fgt_def by (rule flt_asym)

lemma not_fgt_feq: "\<not> is_nan a \<Longrightarrow> \<not> is_nan b \<Longrightarrow> (\<not> fgt a b \<and> \<not> fgt b a) = feq a b"
  unfolding fgt_def by (cases a; cases b) auto

lemma ev_example:
  "fgt (fsub (fmul (rnd (6 / 10)) (rnd (185 / 100))) (Fin 1))
       (fsub (fmul (rnd (1 / 2)) (rnd (21 / 10))) (Fin 1))"
  by code_simp

text \<open>
  C6, amended: the verdict is computed from the scores \<open>wr * odds\<close>.  Side A is declared
  better exactly when its score is greater, side B exactly when its score is greater, and
  the sides are declared equal exactly when neither score is greater, which for scores
  that are numbers means that they are equal.  The verdict agrees with the expected values
  \<open>(wr * odds) - 1.0\<close> wherever these differ: the side with the greater expected value is
  the one declared better.
\<close>

theorem verdict_follows_scores:
  "(compare_scores odds_a odds_b wr_a wr_b = A_better
      \<longleftrightarrow> fgt (fmul wr_a odds_a) (fmul wr_b odds_b))
   \<and> (compare_scores odds_a odds_b wr_a wr_b = B_better
      \<longleftrightarrow> fgt (fmul wr_b odds_b) (fmul wr_a odds_a))
   \<and> (compare_scores odds_a odds_b wr_a wr_b = Both_equal
      \<longleftrightarrow> \<not> fgt (fmul wr_a odds_a) (fmul wr_b odds_b) \<and> \<not> fgt (fmul wr_b odds_b) (fmul wr_a odds_a))
   \<and> (\<not> is_nan (fmul wr_a odds_a) \<and> \<not> is_nan (fmul wr_b odds_b) \<longrightarrow>
        (compare_scores odds_a odds_b wr_a wr_b = Both_equal
           \<longleftrightarrow> feq (fmul wr_a odds_a) (fmul wr_b odds_b)))
   \<and> (fgt (fsub (fmul wr_a odds_a) (Fin 1)) (fsub (fmul wr_b odds_b) (Fin 1))
        \<longrightarrow> compare_scores odds_a odds_b wr_a wr_b = A_better)
   \<and> (fgt (fsub (fmul wr_b odds_b) (Fin 1)) (fsub (fmul wr_a odds_a) (Fin 1))
        \<longrightarrow> compare_scores odds_a odds_b wr_a wr_b = B_better)"
proof -
  define sa where "sa = fmul wr_a odds_a"
  define sb where "sb = fmul wr_b odds_b"
  have c: "compare_scores odds_a odds_b wr_a wr_b =
             (if fgt sa sb then A_better else if fgt sb sa then B_better else Both_equal)"
    by (simp add: compare_scores_def Let_def sa_def sb_def)
  have e1: "fgt (fsub sa (Fin 1)) (fsub sb (Fin 1)) \<Longrightarrow> fgt sa sb"
    unfolding fgt_def by (rule fsub_one_order)
  have e2: "fgt (fsub sb (Fin 1)) (fsub sa (Fin 1)) \<Longrightarrow> fgt sb sa"
    unfolding fgt_def by (rule fsub_one_order)
  show ?thesis
    unfolding sa_def[symmetric] sb_def[symmetric] c
    using fgt_asym[of sa sb] fgt_asym[of sb sa] not_fgt_feq[of sa sb] e1 e2
    by auto
qed


theorem verdict_follows_scores_witness:
  "fgt (fsub (fmul (rnd (6 / 10)) (rnd (185 / 100))) (Fin 1))
       (fsub (fmul (rnd (1 / 2)) (rnd (21 / 10))) (Fin 1))
   \<and> compare_scores (rnd (185 / 100)) (rnd (21 / 10)) (rnd (6 / 10)) (rnd (1 / 2)) = A_better"
  using verdict_follows_scores[of "rnd (185 / 100)" "rnd (21 / 10)" "rnd (6 / 10)" "rnd (1 / 2)"]
    ev_example
  by blast

end
